theory Spec2Isabelle
  imports Complex_Main "HOL-Library.Word" "HOL-Library.AList"
begin

unbundle bit_operations_syntax

section \<open>JavaScript strings\<close>

text \<open>
  A JavaScript string is a sequence of 16-bit code units: \<open>str.length\<close> counts them and
  \<open>str.charCodeAt(i)\<close> reads one. \<open>js\<close> writes an ASCII literal as such a sequence.
\<close>

type_synonym u16 = "16 word"
type_synonym jsstring = "u16 list"

definition js :: "string \<Rightarrow> jsstring" where
  "js s = map (\<lambda>c. of_nat (of_char c)) s"

text \<open>
  The regular-expression class \<open>\s\<close>, which is also the set \<open>String.prototype.trim\<close>
  strips: WhiteSpace and LineTerminator of ECMAScript.
\<close>

definition isWhiteSpace :: "u16 \<Rightarrow> bool" where
  "isWhiteSpace c \<longleftrightarrow>
     c \<in> {0x09, 0x0A, 0x0B, 0x0C, 0x0D, 0x20, 0xA0, 0x1680, 0x2028, 0x2029,
          0x202F, 0x205F, 0x3000, 0xFEFF}
     \<or> (0x2000 \<le> c \<and> c \<le> 0x200A)"

text \<open>\<open>String.prototype.trim\<close>.\<close>

definition trim :: "jsstring \<Rightarrow> jsstring" where
  "trim s = rev (dropWhile isWhiteSpace (rev (dropWhile isWhiteSpace s)))"

text \<open>
  \<open>String.prototype.toLowerCase\<close> follows the Unicode case tables of the platform,
  which are no part of the repository: the functions below take it as the parameter
  \<open>lower\<close>. \<open>asciiLower\<close> is its restriction to ASCII text (\<open>A-Z\<close> become \<open>a-z\<close>,
  every other ASCII code unit stays), used to run the functions on ASCII inputs.
\<close>

definition asciiLower :: "jsstring \<Rightarrow> jsstring" where
  "asciiLower s = map (\<lambda>c. if 0x41 \<le> c \<and> c \<le> 0x5A then c + 0x20 else c) s"

section \<open>Filename clean-up (analyzeImageAndSuggestMetadata, the replace chain)\<close>

text \<open>\<open>.replace(/`/g, '')\<close>\<close>

definition stripBackticks :: "jsstring \<Rightarrow> jsstring" where
  "stripBackticks s = filter (\<lambda>c. c \<noteq> 0x60) s"

text \<open>
  \<open>.replace(/\s+/g, '-')\<close>: the matcher scans from the left; at a whitespace code unit the
  greedy \<open>\s+\<close> takes the whole run, which becomes one hyphen; any other code unit is copied.
\<close>

function replaceWhitespace :: "jsstring \<Rightarrow> jsstring" where
  "replaceWhitespace [] = []"
| "replaceWhitespace (c # cs) =
     (if isWhiteSpace c then 0x2D # replaceWhitespace (dropWhile isWhiteSpace cs)
      else c # replaceWhitespace cs)"
  by pat_completeness auto
termination
  by (relation "measure length") (auto simp: length_dropWhile_le less_Suc_eq_le)

text \<open>The class \<open>[a-z0-9-]\<close>, and \<open>.replace(/[^a-z0-9-]/g, '')\<close>.\<close>

definition isAllowed :: "u16 \<Rightarrow> bool" where
  "isAllowed c \<longleftrightarrow> (0x61 \<le> c \<and> c \<le> 0x7A) \<or> (0x30 \<le> c \<and> c \<le> 0x39) \<or> c = 0x2D"

definition removeDisallowed :: "jsstring \<Rightarrow> jsstring" where
  "removeDisallowed s = filter isAllowed s"

text \<open>
  \<open>.replace(/--+/g, '-')\<close>: a match needs a hyphen followed by at least one more; the greedy
  \<open>-+\<close> then takes every further hyphen, and the whole match becomes one hyphen.
\<close>

function collapseHyphens :: "jsstring \<Rightarrow> jsstring" where
  "collapseHyphens [] = []"
| "collapseHyphens (c # cs) =
     (if c = 0x2D \<and> (case cs of [] \<Rightarrow> False | d # _ \<Rightarrow> d = 0x2D)
      then 0x2D # collapseHyphens (dropWhile (\<lambda>d. d = 0x2D) cs)
      else c # collapseHyphens cs)"
  by pat_completeness auto
termination
  by (relation "measure length") (auto simp: length_dropWhile_le less_Suc_eq_le)

text \<open>The whole chain applied to \<open>metadata.filename\<close>.\<close>

definition cleanFilename :: "(jsstring \<Rightarrow> jsstring) \<Rightarrow> jsstring \<Rightarrow> jsstring" where
  "cleanFilename lower s =
     collapseHyphens (removeDisallowed (replaceWhitespace (stripBackticks (lower s))))"

subsection \<open>The clean-up as the specification words it\<close>

text \<open>
  The five steps written from the specification's sentence, independently of how the
  regular-expression matcher proceeds: a code unit is judged by itself and by its successor.
\<close>

definition spec_alphabet :: "u16 set" where
  "spec_alphabet = set (js ''abcdefghijklmnopqrstuvwxyz0123456789-'')"

definition spec_delete_backticks :: "jsstring \<Rightarrow> jsstring" where
  "spec_delete_backticks s = concat (map (\<lambda>c. if c = 0x60 then [] else [c]) s)"

text \<open>A whitespace code unit is written as a hyphen when it ends its run, and dropped otherwise.\<close>

fun spec_whitespace_runs :: "jsstring \<Rightarrow> jsstring" where
  "spec_whitespace_runs [] = []"
| "spec_whitespace_runs [c] = [if isWhiteSpace c then 0x2D else c]"
| "spec_whitespace_runs (c # d # cs) =
     (if isWhiteSpace c
      then (if isWhiteSpace d then spec_whitespace_runs (d # cs)
            else 0x2D # spec_whitespace_runs (d # cs))
      else c # spec_whitespace_runs (d # cs))"

definition spec_delete_outside :: "jsstring \<Rightarrow> jsstring" where
  "spec_delete_outside s = concat (map (\<lambda>c. if c \<in> spec_alphabet then [c] else []) s)"

text \<open>A hyphen followed by a hyphen is dropped: of each run the last one stays.\<close>

fun spec_collapse_hyphens :: "jsstring \<Rightarrow> jsstring" where
  "spec_collapse_hyphens [] = []"
| "spec_collapse_hyphens [c] = [c]"
| "spec_collapse_hyphens (c # d # cs) =
     (if c = 0x2D \<and> d = 0x2D then spec_collapse_hyphens (d # cs)
      else c # spec_collapse_hyphens (d # cs))"

definition spec_normalize :: "(jsstring \<Rightarrow> jsstring) \<Rightarrow> jsstring \<Rightarrow> jsstring" where
  "spec_normalize lower s =
     spec_collapse_hyphens (spec_delete_outside (spec_whitespace_runs
       (spec_delete_backticks (lower s))))"

text \<open>Two hyphens next to each other somewhere in the string.\<close>

fun adjacentHyphens :: "jsstring \<Rightarrow> bool" where
  "adjacentHyphens (c # d # cs) \<longleftrightarrow> (c = 0x2D \<and> d = 0x2D) \<or> adjacentHyphens (d # cs)"
| "adjacentHyphens _ \<longleftrightarrow> False"

section \<open>The metadata request client (analyzeImageAndSuggestMetadata)\<close>

text \<open>
  What \<open>JSON.parse\<close> returns. An object is its list of properties; a number matters
  below only through being zero or not.
\<close>

datatype json =
    JNull
  | JBool bool
  | JNum rat
  | JStr jsstring
  | JArr "json list"
  | JObj "(jsstring \<times> json) list"

text \<open>
  What is thrown inside the \<open>try\<close> block: the \<open>SyntaxError\<close> of \<open>JSON.parse\<close>, a
  \<open>TypeError\<close> (reading a property of \<open>null\<close> or \<open>undefined\<close>, calling what is no
  function), the \<open>Error("AI returned an invalid data structure.")\<close> of the shape check, and
  whatever reading the file or the request to the service throws.
\<close>

datatype exn = SyntaxError | TypeError | InvalidStructure | ServiceError

text \<open>
  What the \<open>catch\<close> block rethrows: "Could not parse the AI's response. Please try again."
  or "Could not analyze the image. Please try again or use a different image."
\<close>

datatype client_error = CouldNotParse | CouldNotAnalyze

text \<open>
  Reading one of the properties \<open>filename\<close>, \<open>title\<close>, \<open>description\<close>, \<open>tags\<close> of a value other
  than \<open>null\<close>: \<open>None\<close> is \<open>undefined\<close>. No prototype defines these four names, so only an
  object that has the property yields a value.
\<close>

fun getProp :: "json \<Rightarrow> jsstring \<Rightarrow> json option" where
  "getProp (JObj kvs) k = map_of kvs k"
| "getProp _ k = None"

text \<open>\<open>!v\<close> is \<open>\<not> truthy v\<close>.\<close>

fun truthy :: "json option \<Rightarrow> bool" where
  "truthy None \<longleftrightarrow> False"
| "truthy (Some JNull) \<longleftrightarrow> False"
| "truthy (Some (JBool b)) \<longleftrightarrow> b"
| "truthy (Some (JNum n)) \<longleftrightarrow> n \<noteq> 0"
| "truthy (Some (JStr s)) \<longleftrightarrow> s \<noteq> []"
| "truthy (Some (JArr xs)) \<longleftrightarrow> True"
| "truthy (Some (JObj kvs)) \<longleftrightarrow> True"

text \<open>\<open>Array.isArray\<close>\<close>

fun isArray :: "json option \<Rightarrow> bool" where
  "isArray (Some (JArr xs)) \<longleftrightarrow> True"
| "isArray _ \<longleftrightarrow> False"

text \<open>\<open>parsed.filename = v\<close> on an object.\<close>

fun assignFilename :: "json \<Rightarrow> json \<Rightarrow> json" where
  "assignFilename (JObj kvs) v = JObj (AList.update (js ''filename'') v kvs)"
| "assignFilename parsed v = parsed"

text \<open>
  The shape check and the clean-up of the filename, on the parsed value. Reading
  \<open>parsed.filename\<close> of \<open>null\<close> throws; \<open>.toLowerCase()\<close> on a truthy filename that is no
  string throws.
\<close>

definition checkAndClean :: "(jsstring \<Rightarrow> jsstring) \<Rightarrow> json \<Rightarrow> exn + json" where
  "checkAndClean lower parsed =
     (if parsed = JNull then Inl TypeError
      else if \<not> truthy (getProp parsed (js ''filename'')) \<or> \<not> truthy (getProp parsed (js ''title''))
              \<or> \<not> truthy (getProp parsed (js ''description''))
              \<or> \<not> isArray (getProp parsed (js ''tags''))
      then Inl InvalidStructure
      else (case getProp parsed (js ''filename'') of
              Some (JStr s) \<Rightarrow> Inr (assignFilename parsed (JStr (cleanFilename lower s)))
            | _ \<Rightarrow> Inl TypeError))"

text \<open>
  The \<open>try\<close> block. \<open>response\<close> is the outcome of reading the file and of the request: an
  exception, or the response's \<open>text\<close> (which the client library leaves \<open>undefined\<close> when the
  response has no text part). \<open>parse\<close> is \<open>JSON.parse\<close>, \<open>None\<close> where it throws.
\<close>

definition tryBlock ::
  "(jsstring \<Rightarrow> jsstring) \<Rightarrow> (jsstring \<Rightarrow> json option) \<Rightarrow> exn + jsstring option \<Rightarrow> exn + json"
where
  "tryBlock lower parse response =
     (case response of
        Inl e \<Rightarrow> Inl e
      | Inr None \<Rightarrow> Inl TypeError
      | Inr (Some text) \<Rightarrow>
          (case parse (trim text) of
             None \<Rightarrow> Inl SyntaxError
           | Some parsed \<Rightarrow> checkAndClean lower parsed))"

definition analyzeImageAndSuggestMetadata ::
  "(jsstring \<Rightarrow> jsstring) \<Rightarrow> (jsstring \<Rightarrow> json option) \<Rightarrow> exn + jsstring option
     \<Rightarrow> client_error + json"
where
  "analyzeImageAndSuggestMetadata lower parse response =
     (case tryBlock lower parse response of
        Inr result \<Rightarrow> Inr result
      | Inl SyntaxError \<Rightarrow> Inl CouldNotParse
      | Inl _ \<Rightarrow> Inl CouldNotAnalyze)"

subsection \<open>The validation as the specification words it\<close>

text \<open>
  "Any of the four fields is absent or \<open>tags\<close> is not a sequence of strings" is the negation
  of \<open>spec_shape_ok\<close>.
\<close>

fun isJStr :: "json \<Rightarrow> bool" where
  "isJStr (JStr s) \<longleftrightarrow> True"
| "isJStr _ \<longleftrightarrow> False"

definition spec_shape_ok :: "json \<Rightarrow> bool" where
  "spec_shape_ok parsed \<longleftrightarrow>
     getProp parsed (js ''filename'') \<noteq> None \<and> getProp parsed (js ''title'') \<noteq> None
     \<and> getProp parsed (js ''description'') \<noteq> None
     \<and> (case getProp parsed (js ''tags'') of Some (JArr xs) \<Rightarrow> list_all isJStr xs | _ \<Rightarrow> False)"

section \<open>The item records (types.ts)\<close>

datatype AppStatus = IDLE | LOADING | SUCCESS | ERROR

record ImageMetadata =
  filename :: jsstring
  title :: jsstring
  description :: jsstring
  tags :: "jsstring list"

text \<open>Of a browser \<open>File\<close> the program reads the name and the MIME type.\<close>

record File =
  name :: jsstring
  type' :: jsstring

record ImageFile =
  id' :: jsstring
  file' :: File
  previewUrl :: jsstring
  metadata :: "ImageMetadata option"
  status :: AppStatus
  error :: "jsstring option"

text \<open>
  The \<open>Partial<ImageFile>\<close> objects passed to \<open>updateImageFile\<close>: a field that is \<open>None\<close>
  is not in the object; \<open>error: null\<close> is \<open>Some None\<close>.
\<close>

record Updates =
  setStatus :: "AppStatus option"
  setMetadata :: "ImageMetadata option option"
  setError :: "jsstring option option"

text \<open>The component's state (the \<open>useState\<close> cells the handlers read and write).\<close>

record AppState =
  imageFiles :: "ImageFile list"
  isProcessing :: bool
  isZipping :: bool
  customTagsInput :: jsstring

section \<open>Upload, update, delete and edit (App)\<close>



text \<open>The spread \<open>{ ...f, ...updates }\<close>.\<close>

definition spread :: "ImageFile \<Rightarrow> Updates \<Rightarrow> ImageFile" where
  "spread f updates =
     f\<lparr>metadata := (case setMetadata updates of None \<Rightarrow> metadata f | Some m \<Rightarrow> m),
       status := (case setStatus updates of None \<Rightarrow> status f | Some st \<Rightarrow> st),
       error := (case setError updates of None \<Rightarrow> error f | Some e \<Rightarrow> e)\<rparr>"

definition updateImageFile :: "jsstring \<Rightarrow> Updates \<Rightarrow> ImageFile list \<Rightarrow> ImageFile list" where
  "updateImageFile i updates prev = map (\<lambda>f. if id' f = i then spread f updates else f) prev"




section \<open>Single-item analysis (handleGenerateMetadataForOne)\<close>

text \<open>
  The handler runs in two parts with the request in between. \<open>snapshot\<close> is the \<open>imageFiles\<close>
  of the render the callback was created in; \<open>prev\<close> is the state the updates apply to.
  The first part, up to the \<open>await\<close>:
\<close>

definition beginAnalysis :: "ImageFile list \<Rightarrow> jsstring \<Rightarrow> ImageFile list \<Rightarrow> ImageFile list" where
  "beginAnalysis snapshot i prev =
     (case find (\<lambda>f. id' f = i) snapshot of
        None \<Rightarrow> prev
      | Some imageFile \<Rightarrow>
          updateImageFile i \<lparr>setStatus = Some LOADING, setMetadata = None, setError = Some None\<rparr> prev)"

text \<open>
  The second part: the request returned metadata (\<open>Inr\<close>) or threw an \<open>Error\<close> with a
  message (\<open>Inl\<close>).
\<close>

definition finishAnalysis ::
  "jsstring \<Rightarrow> jsstring + ImageMetadata \<Rightarrow> ImageFile list \<Rightarrow> ImageFile list"
where
  "finishAnalysis i outcome prev =
     (case outcome of
        Inr m \<Rightarrow>
          updateImageFile i \<lparr>setStatus = Some SUCCESS, setMetadata = Some (Some m), setError = None\<rparr> prev
      | Inl errorMessage \<Rightarrow>
          updateImageFile i \<lparr>setStatus = Some ERROR, setMetadata = None,
                             setError = Some (Some errorMessage)\<rparr> prev)"

text \<open>
  The whole handler, with nothing else running during the request. \<open>analyze\<close> is
  \<open>analyzeImageAndSuggestMetadata\<close> as the handler sees it; the second component records
  when the request for an item is made and when it ends.
\<close>

datatype request_event = Requested jsstring | Returned jsstring

definition handleGenerateMetadataForOne ::
  "(File \<Rightarrow> jsstring + ImageMetadata) \<Rightarrow> ImageFile list \<Rightarrow> jsstring
     \<Rightarrow> ImageFile list \<times> request_event list \<Rightarrow> ImageFile list \<times> request_event list"
where
  "handleGenerateMetadataForOne analyze snapshot i st =
     (case find (\<lambda>f. id' f = i) snapshot of
        None \<Rightarrow> st
      | Some imageFile \<Rightarrow>
          (finishAnalysis i (analyze (file' imageFile)) (beginAnalysis snapshot i (fst st)),
           snd st @ [Requested i, Returned i]))"

section \<open>Generate All (handleGenerateAllMetadata)\<close>

text \<open>
  The loop runs over the \<open>imageFiles\<close> of the render the callback was created in and tests
  the status found there; each call is awaited before the next iteration.
\<close>

definition generateAllLoop ::
  "(File \<Rightarrow> jsstring + ImageMetadata) \<Rightarrow> ImageFile list \<Rightarrow> ImageFile list
     \<Rightarrow> ImageFile list \<times> request_event list \<Rightarrow> ImageFile list \<times> request_event list"
where
  "generateAllLoop analyze snapshot todo st =
     foldl (\<lambda>acc imageFile.
              if status imageFile = IDLE \<or> status imageFile = ERROR
              then handleGenerateMetadataForOne analyze snapshot (id' imageFile) acc
              else acc)
           st todo"

definition handleGenerateAllMetadata ::
  "(File \<Rightarrow> jsstring + ImageMetadata) \<Rightarrow> AppState \<Rightarrow> AppState \<times> request_event list"
where
  "handleGenerateAllMetadata analyze s =
     (let r = generateAllLoop analyze (imageFiles s) (imageFiles s) (imageFiles s, [])
      in (s\<lparr>imageFiles := fst r, isProcessing := False\<rparr>, snd r))"

section \<open>Bulk tags (handleApplyCustomTags)\<close>

text \<open>\<open>str.split(',')\<close>: the pieces between the separators; the empty string gives one empty piece.\<close>

fun splitOn :: "u16 \<Rightarrow> jsstring \<Rightarrow> jsstring list" where
  "splitOn sep [] = [[]]"
| "splitOn sep (c # cs) =
     (if c = sep then [] # splitOn sep cs
      else (case splitOn sep cs of w # ws \<Rightarrow> (c # w) # ws | [] \<Rightarrow> [[c]]))"

text \<open>\<open>.split(',').map(tag => tag.trim()).filter(Boolean)\<close>\<close>

definition parseTags :: "jsstring \<Rightarrow> jsstring list" where
  "parseTags input = filter (\<lambda>tag. tag \<noteq> []) (map trim (splitOn 0x2C input))"

text \<open>
  \<open>Array.from(new Set(xs))\<close>: a \<open>Set\<close> keeps its members in insertion order, and adding a
  member it has changes nothing.
\<close>

definition setAdd :: "'a list \<Rightarrow> 'a \<Rightarrow> 'a list" where
  "setAdd members x = (if x \<in> set members then members else members @ [x])"

definition arrayFromSet :: "'a list \<Rightarrow> 'a list" where
  "arrayFromSet xs = foldl setAdd [] xs"

definition handleApplyCustomTags :: "AppState \<Rightarrow> AppState" where
  "handleApplyCustomTags s =
     (if trim (customTagsInput s) = [] then s
      else let newTags = parseTags (customTagsInput s) in
        if newTags = [] then s
        else s\<lparr>imageFiles :=
                 map (\<lambda>f. case metadata f of
                             None \<Rightarrow> f
                           | Some m \<Rightarrow>
                               if status f = SUCCESS
                               then f\<lparr>metadata := Some (m\<lparr>tags := arrayFromSet (tags m @ newTags)\<rparr>)\<rparr>
                               else f)
                     (imageFiles s),
               customTagsInput := []\<rparr>)"

text \<open>Typing \<open>input\<close> into the text field and pressing Apply Tags.\<close>

definition applyTags :: "jsstring \<Rightarrow> AppState \<Rightarrow> AppState" where
  "applyTags input s = handleApplyCustomTags (s\<lparr>customTagsInput := input\<rparr>)"

subsection \<open>The bulk tag operation as the specification words it\<close>

text \<open>Keeping the first occurrence of each element, in order.\<close>

definition spec_dedup :: "'a list \<Rightarrow> 'a list" where
  "spec_dedup xs = rev (remdups (rev xs))"

definition spec_bulk_tags :: "jsstring \<Rightarrow> ImageFile list \<Rightarrow> ImageFile list" where
  "spec_bulk_tags input files =
     map (\<lambda>f. if status f = SUCCESS
              then f\<lparr>metadata := map_option (\<lambda>m. m\<lparr>tags := spec_dedup (tags m @ parseTags input)\<rparr>)
                                   (metadata f)\<rparr>
              else f) files"

section \<open>Observable points\<close>










section \<open>Export (toUcs2Bytes, processAndDownloadAll)\<close>

text \<open>
  \<open>toUcs2Bytes\<close>: the loop over the indices of the string, pushing two numbers for each
  code unit, and the terminator pushed after it.
\<close>

function toUcs2Loop :: "jsstring \<Rightarrow> nat \<Rightarrow> nat list \<Rightarrow> nat list" where
  "toUcs2Loop str i bytes =
     (if i < length str
      then toUcs2Loop str (i + 1)
             (bytes @ [unat ((str ! i) AND 0xff), unat (drop_bit 8 (str ! i) AND 0xff)])
      else bytes)"
  by pat_completeness auto
termination
  by (relation "measure (\<lambda>(str, i, bytes). length str - i)") auto

declare toUcs2Loop.simps [simp del]

definition toUcs2Bytes :: "jsstring \<Rightarrow> nat list" where
  "toUcs2Bytes str = toUcs2Loop str 0 [] @ [0, 0]"

text \<open>\<open>Array.prototype.join\<close>\<close>

fun join :: "jsstring \<Rightarrow> jsstring list \<Rightarrow> jsstring" where
  "join sep [] = []"
| "join sep [x] = x"
| "join sep (x # y # ys) = x @ sep @ join sep (y # ys)"

text \<open>The \<open>zeroth\<close> object, by the names of the tags of \<open>piexif.ImageIFD\<close>.\<close>

record Zeroth =
  ImageDescription :: jsstring
  XPTitle :: "nat list"
  XPAuthor :: "nat list"
  XPComment :: "nat list"
  XPKeywords :: "nat list"

definition zeroth :: "ImageMetadata \<Rightarrow> Zeroth" where
  "zeroth m =
     \<lparr>ImageDescription = description m,
      XPTitle = toUcs2Bytes (title m),
      XPAuthor = toUcs2Bytes (js ''Game Art Assistant''),
      XPComment = toUcs2Bytes (description m),
      XPKeywords = toUcs2Bytes (join (js '';'') (tags m))\<rparr>"

text \<open>
  The loop of \<open>processAndDownloadAll\<close>. \<open>decode\<close> is the awaited promise that loads the
  preview into an image and draws it on a canvas: \<open>Inl\<close> is its rejection ("Could not load
  image for conversion." or "Failed to get canvas context."), and the \<open>await\<close> stands outside
  the \<open>try\<close>. \<open>embedExif\<close> is \<open>piexif.dump\<close>, \<open>piexif.insert\<close>, \<open>fetch\<close> and \<open>blob()\<close>, \<open>None\<close>
  where one of them throws. The archive lists the file entries by name: \<open>zip.file(name, data)\<close>
  of JSZip adds the entry or replaces the data of the entry of that name (the folder entries
  JSZip adds for a name with a slash are not listed). The second component collects the file
  names written by \<open>console.error\<close>, which a rejection leaves as they are.
\<close>

fun exportLoop ::
  "(ImageFile \<Rightarrow> jsstring + 'u) \<Rightarrow> (Zeroth \<Rightarrow> 'u \<Rightarrow> 'b option) \<Rightarrow> ImageFile list
     \<Rightarrow> (jsstring \<times> 'b) list \<times> jsstring list
     \<Rightarrow> (jsstring \<times> jsstring list) + ((jsstring \<times> 'b) list \<times> jsstring list)"
where
  "exportLoop decode embedExif [] st = Inr st"
| "exportLoop decode embedExif (imageFile # rest) st =
     (case metadata imageFile of
        None \<Rightarrow> exportLoop decode embedExif rest st
      | Some m \<Rightarrow>
          (case decode imageFile of
             Inl rejection \<Rightarrow> Inl (rejection, snd st)
           | Inr imageDataUrl \<Rightarrow>
               (case embedExif (zeroth m) imageDataUrl of
                  None \<Rightarrow> exportLoop decode embedExif rest (fst st, snd st @ [name (file' imageFile)])
                | Some blob \<Rightarrow>
                    exportLoop decode embedExif rest
                      (AList.update (filename m @ js ''.jpg'') blob (fst st), snd st))))"

text \<open>
  How the handler ends: the alert for a missing library, a rejection nothing handles
  (\<open>isZipping\<close> stays set), the alert for a failed \<open>generateAsync\<close>, or the download of the
  archive.
\<close>

datatype 'b ending =
    LibraryAlert
  | Unhandled jsstring
  | ZipAlert
  | Download "(jsstring \<times> 'b) list"

definition processAndDownloadAll ::
  "bool \<Rightarrow> (ImageFile \<Rightarrow> jsstring + 'u) \<Rightarrow> (Zeroth \<Rightarrow> 'u \<Rightarrow> 'b option)
     \<Rightarrow> ((jsstring \<times> 'b) list \<Rightarrow> bool) \<Rightarrow> AppState \<Rightarrow> AppState \<times> 'b ending \<times> jsstring list"
where
  "processAndDownloadAll librariesLoaded decode embedExif generate s =
     (if \<not> librariesLoaded then (s, LibraryAlert, [])
      else
        (case exportLoop decode embedExif
                (filter (\<lambda>f. status f = SUCCESS \<and> metadata f \<noteq> None) (imageFiles s)) ([], []) of
           Inl (rejection, logged) \<Rightarrow> (s\<lparr>isZipping := True\<rparr>, Unhandled rejection, logged)
         | Inr (archive, logged) \<Rightarrow>
             (s\<lparr>isZipping := False\<rparr>, if generate archive then Download archive else ZipAlert, logged)))"

text \<open>
  The calls \<open>zip.file(name, blob)\<close> the loop makes on a list of items, in their order: one for
  each item that has metadata, decodes and embeds.
\<close>

definition embeddedEntries ::
  "(ImageFile \<Rightarrow> jsstring + 'u) \<Rightarrow> (Zeroth \<Rightarrow> 'u \<Rightarrow> 'b option) \<Rightarrow> ImageFile list
     \<Rightarrow> (jsstring \<times> 'b) list"
where
  "embeddedEntries decode embedExif files =
     concat (map (\<lambda>f. case metadata f of
                         None \<Rightarrow> []
                       | Some m \<Rightarrow>
                           (case decode f of
                              Inl rejection \<Rightarrow> []
                            | Inr imageDataUrl \<Rightarrow>
                                (case embedExif (zeroth m) imageDataUrl of
                                   None \<Rightarrow> []
                                 | Some blob \<Rightarrow> [(filename m @ js ''.jpg'', blob)]))) files)"

section \<open>Properties of the filename clean-up\<close>

subsection \<open>The character classes, by code unit numbers\<close>

lemma isAllowed_unat:
  "isAllowed c \<longleftrightarrow>
     (97 \<le> unat c \<and> unat c \<le> 122) \<or> (48 \<le> unat c \<and> unat c \<le> 57) \<or> unat c = 45"
  by (simp add: isAllowed_def word_le_nat_alt word_unat_eq_iff)

lemma isWhiteSpace_unat:
  "isWhiteSpace c \<longleftrightarrow>
     unat c \<in> {9, 10, 11, 12, 13, 32, 160, 5760, 8232, 8233, 8239, 8287, 12288, 65279}
     \<or> (8192 \<le> unat c \<and> unat c \<le> 8202)"
  by (simp add: isWhiteSpace_def word_le_nat_alt word_unat_eq_iff)

lemma isAllowed_alphabet: "isAllowed c \<longleftrightarrow> c \<in> spec_alphabet"
  unfolding isAllowed_unat
  by (simp add: spec_alphabet_def js_def word_unat_eq_iff; arith)

lemma allowed_not_whitespace: "isAllowed c \<Longrightarrow> \<not> isWhiteSpace c"
  unfolding isAllowed_unat isWhiteSpace_unat by auto

lemma allowed_not_backtick: "isAllowed c \<Longrightarrow> c \<noteq> 0x60"
  unfolding isAllowed_unat by auto

lemma list_all_allowed: "list_all isAllowed t \<longleftrightarrow> set t \<subseteq> spec_alphabet"
  by (auto simp: list_all_iff isAllowed_alphabet)

subsection \<open>Each replace against its description\<close>

lemma stripBackticks_spec: "stripBackticks s = spec_delete_backticks s"
  by (induction s) (simp_all add: stripBackticks_def spec_delete_backticks_def)

lemma replaceWhitespace_spec: "replaceWhitespace s = spec_whitespace_runs s"
  by (induction s rule: spec_whitespace_runs.induct) auto

lemma removeDisallowed_spec: "removeDisallowed s = spec_delete_outside s"
  by (induction s)
    (simp_all add: removeDisallowed_def spec_delete_outside_def isAllowed_alphabet)

lemma collapseHyphens_spec: "collapseHyphens s = spec_collapse_hyphens s"
proof (induction s rule: spec_collapse_hyphens.induct)
  case (3 c d cs)
  then show ?case by (cases cs) auto
qed simp_all

lemma cleanFilename_spec: "cleanFilename lower s = spec_normalize lower s"
  by (simp add: cleanFilename_def spec_normalize_def stripBackticks_spec
      replaceWhitespace_spec removeDisallowed_spec collapseHyphens_spec)

subsection \<open>The shape of the result\<close>

lemma spec_collapse_head: "\<exists>r. spec_collapse_hyphens (d # cs) = d # r"
  by (induction cs arbitrary: d) auto

lemma spec_collapse_set: "set (spec_collapse_hyphens s) \<subseteq> set s"
  by (induction s rule: spec_collapse_hyphens.induct) auto

lemma spec_collapse_no_adjacent: "\<not> adjacentHyphens (spec_collapse_hyphens s)"
proof (induction s rule: spec_collapse_hyphens.induct)
  case (3 c d cs)
  obtain r where r: "spec_collapse_hyphens (d # cs) = d # r"
    using spec_collapse_head by blast
  with 3 show ?case by auto
qed simp_all

lemma cleanFilename_allowed: "list_all isAllowed (cleanFilename lower s)"
proof -
  have "set (cleanFilename lower s)
      \<subseteq> set (removeDisallowed (replaceWhitespace (stripBackticks (lower s))))"
    by (simp add: cleanFilename_def collapseHyphens_spec spec_collapse_set)
  then show ?thesis by (auto simp: list_all_iff removeDisallowed_def)
qed

lemma cleanFilename_no_adjacent: "\<not> adjacentHyphens (cleanFilename lower s)"
  by (simp add: cleanFilename_def collapseHyphens_spec spec_collapse_no_adjacent)

lemma adjacentHyphens_index:
  "adjacentHyphens s \<longleftrightarrow> (\<exists>i. Suc i < length s \<and> s ! i = 0x2D \<and> s ! Suc i = 0x2D)"
proof (induction s rule: adjacentHyphens.induct)
  case (1 c d cs)
  let ?s = "c # d # cs"
  show ?case
  proof
    assume "adjacentHyphens ?s"
    then consider "c = 0x2D \<and> d = 0x2D" | "adjacentHyphens (d # cs)" by auto
    then show "\<exists>i. Suc i < length ?s \<and> ?s ! i = 0x2D \<and> ?s ! Suc i = 0x2D"
    proof cases
      case 1
      then have "Suc 0 < length ?s \<and> ?s ! 0 = 0x2D \<and> ?s ! Suc 0 = 0x2D" by simp
      then show ?thesis by blast
    next
      case 2
      with 1 obtain i where
        "Suc i < length (d # cs) \<and> (d # cs) ! i = 0x2D \<and> (d # cs) ! Suc i = 0x2D" by blast
      then have "Suc (Suc i) < length ?s \<and> ?s ! Suc i = 0x2D \<and> ?s ! Suc (Suc i) = 0x2D"
        by simp
      then show ?thesis by blast
    qed
  next
    assume "\<exists>i. Suc i < length ?s \<and> ?s ! i = 0x2D \<and> ?s ! Suc i = 0x2D"
    then obtain i where i: "Suc i < length ?s" "?s ! i = 0x2D" "?s ! Suc i = 0x2D" by blast
    show "adjacentHyphens ?s"
    proof (cases i)
      case 0
      with i show ?thesis by simp
    next
      case (Suc j)
      with i have "Suc j < length (d # cs) \<and> (d # cs) ! j = 0x2D \<and> (d # cs) ! Suc j = 0x2D"
        by simp
      with 1 show ?thesis by auto
    qed
  qed
qed simp_all

subsection \<open>Strings the clean-up leaves alone\<close>

lemma stripBackticks_id: "list_all isAllowed t \<Longrightarrow> stripBackticks t = t"
  by (induction t) (auto simp: stripBackticks_def dest: allowed_not_backtick)

lemma replaceWhitespace_id: "list_all isAllowed t \<Longrightarrow> replaceWhitespace t = t"
  by (induction t) (auto dest: allowed_not_whitespace)

lemma removeDisallowed_id: "list_all isAllowed t \<Longrightarrow> removeDisallowed t = t"
  by (induction t) (auto simp: removeDisallowed_def)

lemma spec_collapse_id: "\<not> adjacentHyphens t \<Longrightarrow> spec_collapse_hyphens t = t"
  by (induction t rule: spec_collapse_hyphens.induct) auto

lemma cleanFilename_id:
  assumes "lower t = t" "list_all isAllowed t" "\<not> adjacentHyphens t"
  shows "cleanFilename lower t = t"
  using assms
  by (simp add: cleanFilename_def stripBackticks_id replaceWhitespace_id
      removeDisallowed_id collapseHyphens_spec spec_collapse_id)

lemma asciiLower_id: "set t \<subseteq> spec_alphabet \<Longrightarrow> asciiLower t = t"
  unfolding asciiLower_def list_all_allowed [symmetric]
  by (induction t) (auto simp: isAllowed_unat word_le_nat_alt)

lemma cleanFilename_example:
  "cleanFilename asciiLower (js ''`Female Elf--Archer`'') = js ''female-elf-archer''"
  by code_simp

text \<open>
  C6. For every filename the service returns, the clean-up yields what the five steps of
  the specification yield in their order: lowercasing, deleting the backticks, replacing each
  maximal run of whitespace by one hyphen, deleting every character outside \<open>[a-z0-9-]\<close>,
  collapsing each run of two or more hyphens to one. The result therefore consists of
  characters of \<open>[a-z0-9-]\<close> only and has no two hyphens next to each other.
\<close>

theorem cleanFilename_normalizes:
  "cleanFilename lower s = spec_normalize lower s
   \<and> set (cleanFilename lower s) \<subseteq> spec_alphabet
   \<and> \<not> (\<exists>i. Suc i < length (cleanFilename lower s)
            \<and> cleanFilename lower s ! i = 0x2D \<and> cleanFilename lower s ! Suc i = 0x2D)"
  using cleanFilename_spec [of lower s] cleanFilename_allowed [of lower s]
    cleanFilename_no_adjacent [of lower s]
  by (simp add: list_all_allowed adjacentHyphens_index)

theorem cleanFilename_normalizes_witness:
  "spec_normalize asciiLower (js ''`Female Elf--Archer`'') = js ''female-elf-archer''
   \<and> set (js ''female-elf-archer'') \<subseteq> spec_alphabet"
proof -
  let ?s = "js ''`Female Elf--Archer`''"
  have "cleanFilename asciiLower ?s = spec_normalize asciiLower ?s
      \<and> set (cleanFilename asciiLower ?s) \<subseteq> spec_alphabet"
    using cleanFilename_normalizes [of asciiLower ?s] by blast
  then have "js ''female-elf-archer'' = spec_normalize asciiLower ?s
      \<and> set (js ''female-elf-archer'') \<subseteq> spec_alphabet"
    unfolding cleanFilename_example .
  then show ?thesis by (blast intro: sym)
qed

text \<open>
  C7. The clean-up is idempotent: cleaning a cleaned filename returns it unchanged, and
  every string that consists of characters of \<open>[a-z0-9-]\<close> and has no two hyphens next to
  each other is returned unchanged. Lowercasing enters as what it is on such strings, the
  identity.
\<close>

theorem cleanFilename_idempotent:
  assumes "\<And>t. set t \<subseteq> spec_alphabet \<Longrightarrow> lower t = t"
  shows "cleanFilename lower (cleanFilename lower s) = cleanFilename lower s
    \<and> (\<forall>t. set t \<subseteq> spec_alphabet \<and> \<not> adjacentHyphens t \<longrightarrow> cleanFilename lower t = t)"
proof -
  have fixed: "cleanFilename lower t = t" if "set t \<subseteq> spec_alphabet" "\<not> adjacentHyphens t" for t
    using that assms [of t] by (simp add: cleanFilename_id list_all_allowed)
  have "set (cleanFilename lower s) \<subseteq> spec_alphabet"
    using cleanFilename_allowed [of lower s] by (simp add: list_all_allowed)
  then show ?thesis
    using fixed cleanFilename_no_adjacent [of lower s] by blast
qed

theorem cleanFilename_idempotent_witness:
  "cleanFilename asciiLower (js ''female-elf-archer'') = js ''female-elf-archer''
   \<and> cleanFilename asciiLower (cleanFilename asciiLower (js ''`Female Elf--Archer`''))
       = js ''female-elf-archer''"
proof -
  let ?s = "js ''`Female Elf--Archer`''"
  have "cleanFilename asciiLower (cleanFilename asciiLower ?s) = cleanFilename asciiLower ?s"
    using cleanFilename_idempotent [of asciiLower ?s, OF asciiLower_id] by blast
  then have "cleanFilename asciiLower (js ''female-elf-archer'') = js ''female-elf-archer''"
    unfolding cleanFilename_example .
  then show ?thesis unfolding cleanFilename_example by simp
qed

section \<open>Properties of the metadata request client\<close>

lemma checkAndClean_not_syntax: "checkAndClean lower parsed \<noteq> Inl SyntaxError"
  by (auto simp: checkAndClean_def split: option.splits json.splits)

lemma checkAndClean_shape:
  "parsed \<noteq> JNull \<Longrightarrow>
   checkAndClean lower parsed = Inl InvalidStructure \<longleftrightarrow>
     \<not> truthy (getProp parsed (js ''filename'')) \<or> \<not> truthy (getProp parsed (js ''title''))
     \<or> \<not> truthy (getProp parsed (js ''description'')) \<or> \<not> isArray (getProp parsed (js ''tags''))"
  by (auto simp: checkAndClean_def split: option.splits json.splits)

lemma checkAndClean_ok:
  assumes "getProp parsed (js ''filename'') = Some (JStr f)" "f \<noteq> []"
    "truthy (getProp parsed (js ''title''))" "truthy (getProp parsed (js ''description''))"
    "getProp parsed (js ''tags'') = Some (JArr xs)"
  shows "checkAndClean lower parsed = Inr (assignFilename parsed (JStr (cleanFilename lower f)))"
  using assms by (auto simp: checkAndClean_def)

lemma checkAndClean_Inr:
  assumes "checkAndClean lower parsed = Inr r"
  shows "\<exists>f xs. getProp parsed (js ''filename'') = Some (JStr f) \<and> f \<noteq> []
     \<and> truthy (getProp parsed (js ''title'')) \<and> truthy (getProp parsed (js ''description''))
     \<and> getProp parsed (js ''tags'') = Some (JArr xs)
     \<and> r = assignFilename parsed (JStr (cleanFilename lower f))"
proof -
  from assms have t: "truthy (getProp parsed (js ''filename''))" "truthy (getProp parsed (js ''title''))"
     "truthy (getProp parsed (js ''description''))" "isArray (getProp parsed (js ''tags''))"
    by (auto simp: checkAndClean_def split: if_splits)
  from t(4) obtain xs where xs: "getProp parsed (js ''tags'') = Some (JArr xs)"
    by (cases "getProp parsed (js ''tags'')" rule: isArray.cases) auto
  from assms t obtain f where f: "getProp parsed (js ''filename'') = Some (JStr f)"
    by (auto simp: checkAndClean_def split: if_splits option.splits json.splits)
  with t(1) have "f \<noteq> []" by simp
  moreover from assms f t have "r = assignFilename parsed (JStr (cleanFilename lower f))"
    by (auto simp: checkAndClean_def split: if_splits)
  ultimately show ?thesis using f xs t by blast
qed

lemma truthy_falsy:
  "truthy v \<longleftrightarrow> v \<notin> {None, Some JNull, Some (JBool False), Some (JNum 0), Some (JStr [])}"
  by (cases v rule: truthy.cases) auto

lemma tryBlock_text:
  "tryBlock lower parse (Inr (Some text)) =
     (case parse (trim text) of None \<Rightarrow> Inl SyntaxError | Some parsed \<Rightarrow> checkAndClean lower parsed)"
  by (simp add: tryBlock_def)

lemma analyze_parse_error:
  "analyzeImageAndSuggestMetadata lower parse (Inr (Some text)) = Inl CouldNotParse
     \<longleftrightarrow> parse (trim text) = None"
proof (cases "parse (trim text)")
  case None
  then show ?thesis by (simp add: analyzeImageAndSuggestMetadata_def tryBlock_text)
next
  case (Some parsed)
  have "checkAndClean lower parsed \<noteq> Inl SyntaxError" by (rule checkAndClean_not_syntax)
  with Some show ?thesis
    by (auto simp: analyzeImageAndSuggestMetadata_def tryBlock_text split: sum.splits exn.splits)
qed

text \<open>
  C3, as the code has it. The client fails with the parse error exactly when \<open>JSON.parse\<close>
  rejects the trimmed body. For a body that parses to a value other than \<open>null\<close>, the shape
  error is thrown exactly when \<open>filename\<close>, \<open>title\<close> or \<open>description\<close> is absent or falsy (the
  empty string, \<open>0\<close>, \<open>false\<close>, \<open>null\<close>) or \<open>tags\<close> is no array; what the array holds is not
  looked at. When the body parses to an object whose \<open>filename\<close>, \<open>title\<close> and \<open>description\<close>
  are non-empty strings and whose \<open>tags\<close> is an array, the client succeeds and returns the
  object with the filename cleaned.
\<close>

theorem client_validation:
  "(analyzeImageAndSuggestMetadata lower parse (Inr (Some text)) = Inl CouldNotParse
      \<longleftrightarrow> parse (trim text) = None)
   \<and> (\<forall>parsed. parse (trim text) = Some parsed \<and> parsed \<noteq> JNull \<longrightarrow>
        (tryBlock lower parse (Inr (Some text)) = Inl InvalidStructure \<longleftrightarrow>
           \<not> truthy (getProp parsed (js ''filename'')) \<or> \<not> truthy (getProp parsed (js ''title''))
           \<or> \<not> truthy (getProp parsed (js ''description''))
           \<or> (\<forall>xs. getProp parsed (js ''tags'') \<noteq> Some (JArr xs))))
   \<and> (\<forall>kvs f t d xs.
         parse (trim text) = Some (JObj kvs)
         \<and> map_of kvs (js ''filename'') = Some (JStr f) \<and> f \<noteq> []
         \<and> map_of kvs (js ''title'') = Some (JStr t) \<and> t \<noteq> []
         \<and> map_of kvs (js ''description'') = Some (JStr d) \<and> d \<noteq> []
         \<and> map_of kvs (js ''tags'') = Some (JArr xs) \<longrightarrow>
         analyzeImageAndSuggestMetadata lower parse (Inr (Some text))
           = Inr (JObj (AList.update (js ''filename'') (JStr (cleanFilename lower f)) kvs)))"
proof (intro conjI allI impI)
  show "analyzeImageAndSuggestMetadata lower parse (Inr (Some text)) = Inl CouldNotParse
      \<longleftrightarrow> parse (trim text) = None"
    by (rule analyze_parse_error)
next
  fix parsed
  assume a: "parse (trim text) = Some parsed \<and> parsed \<noteq> JNull"
  have arr: "isArray v \<longleftrightarrow> (\<exists>xs. v = Some (JArr xs))" for v
    by (cases v rule: isArray.cases) auto
  from a show "tryBlock lower parse (Inr (Some text)) = Inl InvalidStructure \<longleftrightarrow>
           \<not> truthy (getProp parsed (js ''filename'')) \<or> \<not> truthy (getProp parsed (js ''title''))
           \<or> \<not> truthy (getProp parsed (js ''description''))
           \<or> (\<forall>xs. getProp parsed (js ''tags'') \<noteq> Some (JArr xs))"
    by (simp add: tryBlock_text checkAndClean_shape arr)
next
  fix kvs f t d xs
  assume a: "parse (trim text) = Some (JObj kvs)
         \<and> map_of kvs (js ''filename'') = Some (JStr f) \<and> f \<noteq> []
         \<and> map_of kvs (js ''title'') = Some (JStr t) \<and> t \<noteq> []
         \<and> map_of kvs (js ''description'') = Some (JStr d) \<and> d \<noteq> []
         \<and> map_of kvs (js ''tags'') = Some (JArr xs)"
  then have "checkAndClean lower (JObj kvs)
      = Inr (assignFilename (JObj kvs) (JStr (cleanFilename lower f)))"
    by (intro checkAndClean_ok [where xs = xs]) simp_all
  with a show "analyzeImageAndSuggestMetadata lower parse (Inr (Some text))
           = Inr (JObj (AList.update (js ''filename'') (JStr (cleanFilename lower f)) kvs))"
    by (simp add: analyzeImageAndSuggestMetadata_def tryBlock_text)
qed

lemma trim_padded_body: \<open>trim (js '' {"filename":"Elf Archer","title":"T","description":"D","tags":[7]} '')
   = js ''{"filename":"Elf Archer","title":"T","description":"D","tags":[7]}''\<close>
  by code_simp

theorem client_validation_witness:
  \<open>analyzeImageAndSuggestMetadata asciiLower
     [js ''{"filename":"Elf Archer","title":"T","description":"D","tags":[7]}'' \<mapsto>
        JObj [(js ''filename'', JStr (js ''Elf Archer'')), (js ''title'', JStr (js ''T'')),
              (js ''description'', JStr (js ''D'')), (js ''tags'', JArr [JNum 7])]]
     (Inr (Some (js '' {"filename":"Elf Archer","title":"T","description":"D","tags":[7]} '')))
   = Inr (JObj [(js ''filename'', JStr (js ''elf-archer'')), (js ''title'', JStr (js ''T'')),
              (js ''description'', JStr (js ''D'')), (js ''tags'', JArr [JNum 7])])\<close>
proof -
  let ?body = \<open>js ''{"filename":"Elf Archer","title":"T","description":"D","tags":[7]}''\<close>
  let ?kvs = "[(js ''filename'', JStr (js ''Elf Archer'')), (js ''title'', JStr (js ''T'')),
              (js ''description'', JStr (js ''D'')), (js ''tags'', JArr [JNum 7])]"
  let ?parse = "[?body \<mapsto> JObj ?kvs]"
  let ?text = \<open>js '' {"filename":"Elf Archer","title":"T","description":"D","tags":[7]} ''\<close>
  have p: "?parse (trim ?text) = Some (JObj ?kvs)" unfolding trim_padded_body by simp
  have k: "map_of ?kvs (js ''filename'') = Some (JStr (js ''Elf Archer'')) \<and> js ''Elf Archer'' \<noteq> []
     \<and> map_of ?kvs (js ''title'') = Some (JStr (js ''T'')) \<and> js ''T'' \<noteq> []
     \<and> map_of ?kvs (js ''description'') = Some (JStr (js ''D'')) \<and> js ''D'' \<noteq> []
     \<and> map_of ?kvs (js ''tags'') = Some (JArr [JNum 7])"
    by (simp add: js_def)
  have c: "cleanFilename asciiLower (js ''Elf Archer'') = js ''elf-archer''" by code_simp
  have u: "AList.update (js ''filename'') (JStr (js ''elf-archer'')) ?kvs
     = [(js ''filename'', JStr (js ''elf-archer'')), (js ''title'', JStr (js ''T'')),
              (js ''description'', JStr (js ''D'')), (js ''tags'', JArr [JNum 7])]"
    by simp
  from client_validation [of asciiLower ?parse ?text] p k
  have "analyzeImageAndSuggestMetadata asciiLower ?parse (Inr (Some ?text))
           = Inr (JObj (AList.update (js ''filename'') (JStr (cleanFilename asciiLower (js ''Elf Archer''))) ?kvs))"
    by blast
  then show ?thesis unfolding c u .
qed

text \<open>
  C3 as stated fails in both directions. A response with all four fields present and
  \<open>tags\<close> a sequence of strings, but the empty string as filename, gets the shape error; a
  response whose \<open>tags\<close> holds a number passes.
\<close>

theorem client_validation_counterexample:
  \<open>spec_shape_ok (JObj [(js ''filename'', JStr (js '''')), (js ''title'', JStr (js ''T'')),
                       (js ''description'', JStr (js ''D'')), (js ''tags'', JArr [JStr (js ''elf'')])])
   \<and> tryBlock asciiLower
        [js ''{"filename":"","title":"T","description":"D","tags":["elf"]}'' \<mapsto>
           JObj [(js ''filename'', JStr (js '''')), (js ''title'', JStr (js ''T'')),
                 (js ''description'', JStr (js ''D'')), (js ''tags'', JArr [JStr (js ''elf'')])]]
        (Inr (Some (js ''{"filename":"","title":"T","description":"D","tags":["elf"]}'')))
       = Inl InvalidStructure
   \<and> \<not> spec_shape_ok (JObj [(js ''filename'', JStr (js ''elf'')), (js ''title'', JStr (js ''T'')),
                       (js ''description'', JStr (js ''D'')), (js ''tags'', JArr [JNum 7])])
   \<and> tryBlock asciiLower
        [js ''{"filename":"elf","title":"T","description":"D","tags":[7]}'' \<mapsto>
           JObj [(js ''filename'', JStr (js ''elf'')), (js ''title'', JStr (js ''T'')),
                 (js ''description'', JStr (js ''D'')), (js ''tags'', JArr [JNum 7])]]
        (Inr (Some (js ''{"filename":"elf","title":"T","description":"D","tags":[7]}'')))
       = Inr (JObj [(js ''filename'', JStr (js ''elf'')), (js ''title'', JStr (js ''T'')),
                 (js ''description'', JStr (js ''D'')), (js ''tags'', JArr [JNum 7])])\<close>
proof -
  have t0: \<open>trim (js ''{"filename":"","title":"T","description":"D","tags":["elf"]}'')
      = js ''{"filename":"","title":"T","description":"D","tags":["elf"]}''\<close>
    by code_simp
  have t1: \<open>trim (js ''{"filename":"elf","title":"T","description":"D","tags":[7]}'')
      = js ''{"filename":"elf","title":"T","description":"D","tags":[7]}''\<close>
    by code_simp
  have c: "cleanFilename asciiLower (js ''elf'') = js ''elf''" by code_simp
  show ?thesis
    unfolding tryBlock_text t0 t1
    by (simp add: spec_shape_ok_def checkAndClean_def c) (simp add: js_def)
qed

text \<open>
  C10. A parsed response in which \<open>filename\<close>, \<open>title\<close> or \<open>description\<close> is the empty string
  gets the shape error, whatever else it holds, and the client fails with the generic
  message; whenever the client succeeds, the filename was a non-empty string and title and
  description were present and not the empty string.
\<close>

theorem empty_field_rejected:
  "(\<forall>kvs. parse (trim text) = Some (JObj kvs)
        \<and> (map_of kvs (js ''filename'') = Some (JStr [])
           \<or> map_of kvs (js ''title'') = Some (JStr [])
           \<or> map_of kvs (js ''description'') = Some (JStr [])) \<longrightarrow>
        tryBlock lower parse (Inr (Some text)) = Inl InvalidStructure
        \<and> analyzeImageAndSuggestMetadata lower parse (Inr (Some text)) = Inl CouldNotAnalyze)
   \<and> (\<forall>r. analyzeImageAndSuggestMetadata lower parse (Inr (Some text)) = Inr r \<longrightarrow>
        (\<exists>parsed f. parse (trim text) = Some parsed
           \<and> getProp parsed (js ''filename'') = Some (JStr f) \<and> f \<noteq> []
           \<and> getProp parsed (js ''title'') \<noteq> None
           \<and> getProp parsed (js ''title'') \<noteq> Some (JStr [])
           \<and> getProp parsed (js ''description'') \<noteq> None
           \<and> getProp parsed (js ''description'') \<noteq> Some (JStr [])))"
proof (intro conjI allI impI)
  fix kvs
  assume a: "parse (trim text) = Some (JObj kvs)
        \<and> (map_of kvs (js ''filename'') = Some (JStr [])
           \<or> map_of kvs (js ''title'') = Some (JStr [])
           \<or> map_of kvs (js ''description'') = Some (JStr []))"
  then have "\<not> truthy (getProp (JObj kvs) (js ''filename''))
      \<or> \<not> truthy (getProp (JObj kvs) (js ''title''))
      \<or> \<not> truthy (getProp (JObj kvs) (js ''description''))"
    by auto
  then have "checkAndClean lower (JObj kvs) = Inl InvalidStructure"
    using checkAndClean_shape [of "JObj kvs" lower] by blast
  with a show "tryBlock lower parse (Inr (Some text)) = Inl InvalidStructure"
    and "analyzeImageAndSuggestMetadata lower parse (Inr (Some text)) = Inl CouldNotAnalyze"
    by (simp_all add: analyzeImageAndSuggestMetadata_def tryBlock_text)
next
  fix r
  assume a: "analyzeImageAndSuggestMetadata lower parse (Inr (Some text)) = Inr r"
  then obtain parsed where p: "parse (trim text) = Some parsed"
    and c: "checkAndClean lower parsed = Inr r"
    by (auto simp: analyzeImageAndSuggestMetadata_def tryBlock_text
        split: option.splits sum.splits exn.splits)
  from checkAndClean_Inr [OF c] obtain f where
    f: "getProp parsed (js ''filename'') = Some (JStr f)" "f \<noteq> []"
    and t: "truthy (getProp parsed (js ''title''))"
    and d: "truthy (getProp parsed (js ''description''))"
    by blast
  have nt: "v \<noteq> None \<and> v \<noteq> Some (JStr [])" if "truthy v" for v
    using that by (auto simp: truthy_falsy)
  have "parse (trim text) = Some parsed
           \<and> getProp parsed (js ''filename'') = Some (JStr f) \<and> f \<noteq> []
           \<and> getProp parsed (js ''title'') \<noteq> None
           \<and> getProp parsed (js ''title'') \<noteq> Some (JStr [])
           \<and> getProp parsed (js ''description'') \<noteq> None
           \<and> getProp parsed (js ''description'') \<noteq> Some (JStr [])"
    using p f nt [OF t] nt [OF d] by simp
  then show "\<exists>parsed f. parse (trim text) = Some parsed
           \<and> getProp parsed (js ''filename'') = Some (JStr f) \<and> f \<noteq> []
           \<and> getProp parsed (js ''title'') \<noteq> None
           \<and> getProp parsed (js ''title'') \<noteq> Some (JStr [])
           \<and> getProp parsed (js ''description'') \<noteq> None
           \<and> getProp parsed (js ''description'') \<noteq> Some (JStr [])"
    by (intro exI)
qed

theorem empty_field_rejected_witness:
  \<open>analyzeImageAndSuggestMetadata asciiLower
     [js ''{"filename":"elf","title":"","description":"D","tags":["elf"]}'' \<mapsto>
        JObj [(js ''filename'', JStr (js ''elf'')), (js ''title'', JStr (js '''')),
              (js ''description'', JStr (js ''D'')), (js ''tags'', JArr [JStr (js ''elf'')])]]
     (Inr (Some (js ''{"filename":"elf","title":"","description":"D","tags":["elf"]}'')))
   = Inl CouldNotAnalyze\<close>
proof -
  let ?body = \<open>js ''{"filename":"elf","title":"","description":"D","tags":["elf"]}''\<close>
  let ?kvs = "[(js ''filename'', JStr (js ''elf'')), (js ''title'', JStr (js '''')),
              (js ''description'', JStr (js ''D'')), (js ''tags'', JArr [JStr (js ''elf'')])]"
  have t: "trim ?body = ?body" by code_simp
  have p: "[?body \<mapsto> JObj ?kvs] (trim ?body) = Some (JObj ?kvs)" unfolding t by simp
  have k: "map_of ?kvs (js ''title'') = Some (JStr [])" by (simp add: js_def)
  from empty_field_rejected [of "[?body \<mapsto> JObj ?kvs]" ?body asciiLower] p k
  show ?thesis by blast
qed

section \<open>Properties of the export\<close>

subsection \<open>The text encoding\<close>

lemma low_byte: "unat ((c::u16) AND 0xff) = unat c mod 256"
proof -
  have "c AND 0xff = c AND mask 8" by (simp add: mask_eq_exp_minus_1)
  also have "\<dots> = take_bit 8 c" by (simp only: take_bit_eq_mask)
  also have "\<dots> = c mod 2 ^ 8" by (simp only: take_bit_eq_mod)
  finally have "unat (c AND 0xff) = unat (c mod 2 ^ 8)" by simp
  then show ?thesis by (simp add: unat_mod)
qed

lemma high_byte: "unat (drop_bit 8 (c::u16)) mod 256 = unat c div 256"
proof -
  have d: "unat (drop_bit 8 c) = unat c div 256"
    by (simp add: drop_bit_eq_div unat_div)
  have "unat c < 65536" using unsigned_less [of c, where 'a = nat] by simp
  then have "unat c div 256 < 256" by simp
  then show ?thesis unfolding d by simp
qed

lemma toUcs2Loop_eq:
  "toUcs2Loop str i bytes
     = bytes @ concat (map (\<lambda>c. [unat c mod 256, unat c div 256]) (drop i str))"
proof (induction str i bytes rule: toUcs2Loop.induct)
  case (1 str i bytes)
  show ?case
  proof (cases "i < length str")
    case True
    then have "drop i str = str ! i # drop (Suc i) str"
      by (simp add: Cons_nth_drop_Suc)
    with True 1 show ?thesis
      by (subst toUcs2Loop.simps) (simp add: low_byte high_byte)
  next
    case False
    then show ?thesis by (subst toUcs2Loop.simps) simp
  qed
qed

lemma toUcs2Bytes_eq:
  "toUcs2Bytes s = concat (map (\<lambda>c. [unat c mod 256, unat c div 256]) s) @ [0, 0]"
  by (simp add: toUcs2Bytes_def toUcs2Loop_eq)

lemma toUcs2Bytes_length: "length (toUcs2Bytes s) = 2 * length s + 2"
  unfolding toUcs2Bytes_eq by (induction s) simp_all

lemma toUcs2Bytes_bytes: "list_all (\<lambda>b. b < 256) (toUcs2Bytes s)"
proof -
  have "unat c div 256 < 256" for c :: u16
    using unsigned_less [of c, where 'a = nat] by simp
  then show ?thesis unfolding toUcs2Bytes_eq by (induction s) simp_all
qed

lemma join_closed:
  "join sep ts = (case ts of [] \<Rightarrow> [] | t # rest \<Rightarrow> t @ concat (map (\<lambda>u. sep @ u) rest))"
proof (induction sep ts rule: join.induct)
  case (3 sep x y ys)
  then show ?case by simp
qed simp_all

text \<open>
  C8. For every exported item the title, author, comment and keywords entries of the
  metadata block are \<open>toUcs2Bytes\<close> of the title, of the constant "Game Art Assistant", of
  the description and of the tags joined with \<open>;\<close> (the first tag, then each further tag
  after a semicolon), and the image description is the description itself.
  \<open>toUcs2Bytes\<close> writes each code unit as its low byte followed by its high byte and ends
  with two zero bytes: \<open>2n + 2\<close> bytes for \<open>n\<close> code units, each below 256.
\<close>

theorem exif_text_encoding:
  "XPTitle (zeroth m) = toUcs2Bytes (title m)
   \<and> XPAuthor (zeroth m) = toUcs2Bytes (js ''Game Art Assistant'')
   \<and> js ''Game Art Assistant''
       = [0x47, 0x61, 0x6D, 0x65, 0x20, 0x41, 0x72, 0x74, 0x20,
          0x41, 0x73, 0x73, 0x69, 0x73, 0x74, 0x61, 0x6E, 0x74]
   \<and> XPComment (zeroth m) = toUcs2Bytes (description m)
   \<and> ImageDescription (zeroth m) = description m
   \<and> XPKeywords (zeroth m) = toUcs2Bytes (join (js '';'') (tags m))
   \<and> XPKeywords (zeroth m)
       = toUcs2Bytes (case tags m of [] \<Rightarrow> [] | t # rest \<Rightarrow> t @ concat (map (\<lambda>u. 0x3B # u) rest))
   \<and> join sep ts = (case ts of [] \<Rightarrow> [] | t # rest \<Rightarrow> t @ concat (map (\<lambda>u. sep @ u) rest))
   \<and> toUcs2Bytes s = concat (map (\<lambda>c. [unat c mod 256, unat c div 256]) s) @ [0, 0]
   \<and> length (toUcs2Bytes s) = 2 * length s + 2
   \<and> list_all (\<lambda>b. b < 256) (toUcs2Bytes s)"
proof -
  have a: "js ''Game Art Assistant''
       = [0x47, 0x61, 0x6D, 0x65, 0x20, 0x41, 0x72, 0x74, 0x20,
          0x41, 0x73, 0x73, 0x69, 0x73, 0x74, 0x61, 0x6E, 0x74]"
    by (simp add: js_def)
  have sc: "(\<lambda>u. js '';'' @ u) = (\<lambda>u. 0x3B # u)"
    by (rule ext) (simp add: js_def)
  have k: "join (js '';'') (tags m)
      = (case tags m of [] \<Rightarrow> [] | t # rest \<Rightarrow> t @ concat (map (\<lambda>u. 0x3B # u) rest))"
    unfolding join_closed [of "js '';''" "tags m"] sc ..
  have z: "XPTitle (zeroth m) = toUcs2Bytes (title m)
      \<and> XPAuthor (zeroth m) = toUcs2Bytes (js ''Game Art Assistant'')
      \<and> XPComment (zeroth m) = toUcs2Bytes (description m)
      \<and> ImageDescription (zeroth m) = description m
      \<and> XPKeywords (zeroth m) = toUcs2Bytes (join (js '';'') (tags m))"
    by (simp add: zeroth_def)
  from z have z': "XPKeywords (zeroth m)
       = toUcs2Bytes (case tags m of [] \<Rightarrow> [] | t # rest \<Rightarrow> t @ concat (map (\<lambda>u. 0x3B # u) rest))"
    unfolding k by blast
  show ?thesis
    using a z z' join_closed [of sep ts] toUcs2Bytes_eq [of s] toUcs2Bytes_length [of s]
      toUcs2Bytes_bytes [of s]
    by blast
qed

theorem exif_text_encoding_witness:
  "XPKeywords (zeroth \<lparr>filename = js ''elf'', title = js ''Hi'' @ [0x20AC], description = js ''D'',
        tags = [js ''a'', js ''b'']\<rparr>) = [97, 0, 59, 0, 98, 0, 0, 0]
   \<and> XPTitle (zeroth \<lparr>filename = js ''elf'', title = js ''Hi'' @ [0x20AC], description = js ''D'',
        tags = [js ''a'', js ''b'']\<rparr>) = [72, 0, 105, 0, 172, 32, 0, 0]"
proof -
  let ?m = "\<lparr>filename = js ''elf'', title = js ''Hi'' @ [0x20AC], description = js ''D'',
        tags = [js ''a'', js ''b'']\<rparr>"
  have j: "(case tags ?m of [] \<Rightarrow> [] | t # rest \<Rightarrow> t @ concat (map (\<lambda>u. 0x3B # u) rest))
      = js ''a;b''"
    by (simp add: js_def)
  have k: "toUcs2Bytes (js ''a;b'') = [97, 0, 59, 0, 98, 0, 0, 0]"
    using exif_text_encoding [of ?m _ _ "js ''a;b''"] by (simp add: js_def)
  have t: "toUcs2Bytes (js ''Hi'' @ [0x20AC]) = [72, 0, 105, 0, 172, 32, 0, 0]"
    using exif_text_encoding [of ?m _ _ "js ''Hi'' @ [0x20AC]"] by (simp add: js_def)
  from exif_text_encoding [of ?m "[]" "[]" "[]"]
  have "XPKeywords (zeroth ?m)
       = toUcs2Bytes (case tags ?m of [] \<Rightarrow> [] | t # rest \<Rightarrow> t @ concat (map (\<lambda>u. 0x3B # u) rest))"
    and "XPTitle (zeroth ?m) = toUcs2Bytes (title ?m)"
    by blast+
  then show ?thesis unfolding j by (simp add: k t)
qed

section \<open>Properties of the bulk tag operation\<close>

lemma spec_dedup_set: "set (spec_dedup xs) = set xs"
  by (simp add: spec_dedup_def)

lemma spec_dedup_distinct: "distinct (spec_dedup xs)"
  by (simp add: spec_dedup_def)

lemma spec_dedup_snoc:
  "spec_dedup (xs @ [x]) = (if x \<in> set xs then spec_dedup xs else spec_dedup xs @ [x])"
  by (simp add: spec_dedup_def)

lemma arrayFromSet_spec: "arrayFromSet xs = spec_dedup xs"
proof (induction xs rule: rev_induct)
  case Nil
  show ?case by (simp add: arrayFromSet_def spec_dedup_def)
next
  case (snoc x xs)
  have "arrayFromSet (xs @ [x]) = setAdd (arrayFromSet xs) x"
    by (simp add: arrayFromSet_def)
  with snoc show ?case
    by (simp add: setAdd_def spec_dedup_snoc spec_dedup_set)
qed

lemma spec_dedup_id: "distinct xs \<Longrightarrow> spec_dedup xs = xs"
  by (simp add: spec_dedup_def distinct_remdups_id)

lemma spec_dedup_append:
  "spec_dedup (xs @ ys) = spec_dedup xs @ filter (\<lambda>y. y \<notin> set xs) (spec_dedup ys)"
proof (induction ys rule: rev_induct)
  case Nil
  show ?case by (simp add: spec_dedup_def)
next
  case (snoc y ys)
  have "spec_dedup (xs @ ys @ [y]) = spec_dedup ((xs @ ys) @ [y])" by simp
  also have "\<dots> = (if y \<in> set (xs @ ys) then spec_dedup (xs @ ys) else spec_dedup (xs @ ys) @ [y])"
    by (rule spec_dedup_snoc)
  finally show ?case using snoc by (auto simp: spec_dedup_snoc)
qed

lemma spec_dedup_again: "spec_dedup (spec_dedup (xs @ ys) @ ys) = spec_dedup (xs @ ys)"
proof -
  have "filter (\<lambda>y. y \<notin> set (spec_dedup (xs @ ys))) (spec_dedup ys) = []"
    by (auto simp: spec_dedup_set filter_empty_conv)
  then show ?thesis
    by (simp add: spec_dedup_append [of "spec_dedup (xs @ ys)" ys] spec_dedup_id spec_dedup_distinct)
qed

lemma splitOn_no_sep: "sep \<notin> set s \<Longrightarrow> splitOn sep s = [s]"
  by (induction s) auto

lemma trim_empty: "trim s = [] \<longleftrightarrow> list_all isWhiteSpace s"
proof
  assume "trim s = []"
  then have a: "\<forall>x\<in>set (dropWhile isWhiteSpace s). isWhiteSpace x"
    by (simp add: trim_def dropWhile_eq_Nil_conv)
  have "dropWhile isWhiteSpace s = []"
  proof (rule ccontr)
    assume n: "dropWhile isWhiteSpace s \<noteq> []"
    then have "\<not> isWhiteSpace (hd (dropWhile isWhiteSpace s))" by (rule hd_dropWhile)
    moreover from n have "hd (dropWhile isWhiteSpace s) \<in> set (dropWhile isWhiteSpace s)"
      by (rule hd_in_set)
    ultimately show False using a by blast
  qed
  then show "list_all isWhiteSpace s" by (simp add: dropWhile_eq_Nil_conv list_all_iff)
next
  assume "list_all isWhiteSpace s"
  then have d: "dropWhile isWhiteSpace s = []" by (simp add: list_all_iff)
  show "trim s = []" unfolding trim_def d by simp
qed

lemma comma_not_whitespace: "\<not> isWhiteSpace 0x2C"
  by (simp add: isWhiteSpace_def)

lemma parseTags_blank: "trim input = [] \<Longrightarrow> parseTags input = []"
proof -
  assume t: "trim input = []"
  then have "list_all isWhiteSpace input" by (simp add: trim_empty)
  then have "0x2C \<notin> set input" using comma_not_whitespace by (auto simp: list_all_iff)
  then have "splitOn 0x2C input = [input]" by (rule splitOn_no_sep)
  with t show ?thesis by (simp add: parseTags_def)
qed

lemma applyTags_none:
  "parseTags input = [] \<Longrightarrow> applyTags input s = s\<lparr>customTagsInput := input\<rparr>"
  by (simp add: applyTags_def handleApplyCustomTags_def)

lemma applyTags_some:
  assumes "parseTags input \<noteq> []"
  shows "imageFiles (applyTags input s) = spec_bulk_tags input (imageFiles s)"
proof -
  from assms have "trim input \<noteq> []" using parseTags_blank by blast
  with assms show ?thesis
    by (auto simp: applyTags_def handleApplyCustomTags_def spec_bulk_tags_def Let_def
        arrayFromSet_spec split: option.splits)
qed

lemma spec_bulk_tags_again:
  "spec_bulk_tags input (spec_bulk_tags input fs) = spec_bulk_tags input fs"
  by (induction fs)
    (auto simp: spec_bulk_tags_def spec_dedup_again option.map_comp o_def
      intro!: option.map_cong)

lemma spec_bulk_tags_length: "length (spec_bulk_tags input fs) = length fs"
  by (simp add: spec_bulk_tags_def)

lemma spec_bulk_tags_other:
  "i < length fs \<Longrightarrow> status (fs ! i) \<noteq> SUCCESS \<Longrightarrow> spec_bulk_tags input fs ! i = fs ! i"
  by (simp add: spec_bulk_tags_def)

text \<open>
  C4, as the code has it. When the input yields at least one tag (the pieces between the
  commas, trimmed, the empty ones dropped), every item in success status gets the tag list
  that keeps the first occurrence of each tag in its existing tags followed by the new
  tags; when the input yields no tag the handler returns before touching the items. Items
  not in success status keep their place and are unchanged; applying the same input twice
  gives the item collection of applying it once. The new list has no duplicate, holds the
  tags of both lists and, where the existing tags have no duplicate, starts with them in
  their order.
\<close>

theorem bulk_tags_applied:
  "(parseTags input \<noteq> [] \<longrightarrow>
      imageFiles (applyTags input s) = spec_bulk_tags input (imageFiles s))
   \<and> (parseTags input = [] \<longrightarrow> imageFiles (applyTags input s) = imageFiles s)
   \<and> imageFiles (applyTags input (applyTags input s)) = imageFiles (applyTags input s)
   \<and> length (imageFiles (applyTags input s)) = length (imageFiles s)
   \<and> (\<forall>i < length (imageFiles s). status (imageFiles s ! i) \<noteq> SUCCESS \<longrightarrow>
         imageFiles (applyTags input s) ! i = imageFiles s ! i)
   \<and> distinct (spec_dedup (existing @ parseTags input))
   \<and> set (spec_dedup (existing @ parseTags input)) = set existing \<union> set (parseTags input)
   \<and> (distinct existing \<longrightarrow>
         spec_dedup (existing @ parseTags input)
           = existing @ filter (\<lambda>t. t \<notin> set existing) (spec_dedup (parseTags input)))"
proof (cases "parseTags input = []")
  case True
  then have "applyTags input s = s\<lparr>customTagsInput := input\<rparr>"
    and "applyTags input (s\<lparr>customTagsInput := input\<rparr>) = s\<lparr>customTagsInput := input\<rparr>"
    by (simp_all add: applyTags_def handleApplyCustomTags_def)
  with True show ?thesis
    by (simp add: spec_dedup_distinct spec_dedup_set spec_dedup_id)
next
  case False
  have a: "imageFiles (applyTags input t) = spec_bulk_tags input (imageFiles t)" for t
    using False by (rule applyTags_some)
  show ?thesis
    using False
    by (auto simp add: a spec_bulk_tags_again spec_bulk_tags_length spec_bulk_tags_other
        spec_dedup_distinct spec_dedup_set spec_dedup_append spec_dedup_id)
qed

lemma parseTags_example: "parseTags (js ''a, b'') = [js ''a'', js ''b'']"
  by code_simp

lemma parseTags_comma: "parseTags (js '','') = []"
  by code_simp

theorem bulk_tags_applied_witness:
  "map (\<lambda>f. map_option tags (metadata f))
     (imageFiles (applyTags (js ''a, b'')
        \<lparr>imageFiles =
           [\<lparr>id' = js ''1'', file' = \<lparr>name = js ''elf.png'', type' = js ''image/png''\<rparr>,
              previewUrl = js ''blob:1'',
              metadata = Some \<lparr>filename = js ''elf'', title = js ''Elf'', description = js ''An elf'',
                                tags = [js ''b'', js ''c'']\<rparr>,
              status = SUCCESS, error = None\<rparr>,
            \<lparr>id' = js ''2'', file' = \<lparr>name = js ''orc.png'', type' = js ''image/png''\<rparr>,
              previewUrl = js ''blob:2'', metadata = None, status = IDLE, error = None\<rparr>],
         isProcessing = False, isZipping = False, customTagsInput = []\<rparr>))
   = [Some [js ''b'', js ''c'', js ''a''], None]"
proof -
  let ?s = "\<lparr>imageFiles =
           [\<lparr>id' = js ''1'', file' = \<lparr>name = js ''elf.png'', type' = js ''image/png''\<rparr>,
              previewUrl = js ''blob:1'',
              metadata = Some \<lparr>filename = js ''elf'', title = js ''Elf'', description = js ''An elf'',
                                tags = [js ''b'', js ''c'']\<rparr>,
              status = SUCCESS, error = None\<rparr>,
            \<lparr>id' = js ''2'', file' = \<lparr>name = js ''orc.png'', type' = js ''image/png''\<rparr>,
              previewUrl = js ''blob:2'', metadata = None, status = IDLE, error = None\<rparr>],
         isProcessing = False, isZipping = False, customTagsInput = []\<rparr>"
  have "parseTags (js ''a, b'') \<noteq> []" by (simp add: parseTags_example)
  with bulk_tags_applied [of "js ''a, b''" ?s]
  have e: "imageFiles (applyTags (js ''a, b'') ?s) = spec_bulk_tags (js ''a, b'') (imageFiles ?s)"
    by blast
  have v: "map (\<lambda>f. map_option tags (metadata f)) (spec_bulk_tags (js ''a, b'') (imageFiles ?s))
      = [Some [js ''b'', js ''c'', js ''a''], None]"
    unfolding spec_bulk_tags_def parseTags_example by (simp add: spec_dedup_def js_def)
  show ?thesis unfolding e by (rule v)
qed

text \<open>
  C4 as stated fails where the input yields no tag: on the input \<open>,\<close> an item in success
  status whose tags are \<open>a, a\<close> (as the tag field of its card accepts them) keeps them, where
  the deduplicated concatenation is \<open>a\<close>.
\<close>

theorem bulk_tags_counterexample:
  "map (\<lambda>f. map_option tags (metadata f))
     (imageFiles (applyTags (js '','')
        \<lparr>imageFiles =
           [\<lparr>id' = js ''1'', file' = \<lparr>name = js ''elf.png'', type' = js ''image/png''\<rparr>,
              previewUrl = js ''blob:1'',
              metadata = Some \<lparr>filename = js ''elf'', title = js ''Elf'', description = js ''An elf'',
                                tags = [js ''a'', js ''a'']\<rparr>,
              status = SUCCESS, error = None\<rparr>],
         isProcessing = False, isZipping = False, customTagsInput = []\<rparr>))
   = [Some [js ''a'', js ''a'']]
   \<and> map (\<lambda>f. map_option tags (metadata f))
     (spec_bulk_tags (js '','')
           [\<lparr>id' = js ''1'', file' = \<lparr>name = js ''elf.png'', type' = js ''image/png''\<rparr>,
              previewUrl = js ''blob:1'',
              metadata = Some \<lparr>filename = js ''elf'', title = js ''Elf'', description = js ''An elf'',
                                tags = [js ''a'', js ''a'']\<rparr>,
              status = SUCCESS, error = None\<rparr>])
   = [Some [js ''a'']]"
  by (simp add: applyTags_none parseTags_comma spec_bulk_tags_def spec_dedup_def)

section \<open>Properties of the archive\<close>

lemma exportLoop_entries:
  "exportLoop decode embedExif files st = Inr (archive, logged) \<Longrightarrow>
     archive = fold (\<lambda>(k, v). AList.update k v) (embeddedEntries decode embedExif files) (fst st)"
proof (induction files arbitrary: st)
  case Nil
  then show ?case by (simp add: embeddedEntries_def)
next
  case (Cons f files)
  show ?case
  proof (cases "metadata f")
    case None
    with Cons show ?thesis by (simp add: embeddedEntries_def)
  next
    case (Some m)
    show ?thesis
    proof (cases "decode f")
      case (Inl r)
      with Cons.prems Some show ?thesis by simp
    next
      case (Inr u)
      show ?thesis
      proof (cases "embedExif (zeroth m) u")
        case None
        with Cons.prems Some Inr
        have "exportLoop decode embedExif files (fst st, snd st @ [name (file' f)])
            = Inr (archive, logged)" by simp
        from Cons.IH [OF this] show ?thesis
          using Some Inr None by (simp add: embeddedEntries_def)
      next
        case (Some b)
        with Cons.prems \<open>metadata f = Some m\<close> Inr
        have "exportLoop decode embedExif files
            (AList.update (filename m @ js ''.jpg'') b (fst st), snd st) = Inr (archive, logged)"
          by simp
        from Cons.IH [OF this] show ?thesis
          using \<open>metadata f = Some m\<close> Inr Some by (simp add: embeddedEntries_def)
      qed
    qed
  qed
qed

lemma fold_update_distinct:
  "distinct (map fst al) \<Longrightarrow> distinct (map fst (fold (\<lambda>(k, v). AList.update k v) es al))"
  by (induction es arbitrary: al) (auto simp: distinct_update)

lemma fold_update_map_of:
  "map_of (fold (\<lambda>(k, v). AList.update k v) es al) = map_of (rev es @ al)"
proof (induction es arbitrary: al)
  case Nil
  show ?case by simp
next
  case (Cons e es)
  obtain k v where e: "e = (k, v)" by (cases e)
  have "map_of (fold (\<lambda>(k, v). AList.update k v) (e # es) al)
      = map_of (rev es @ AList.update k v al)"
    using Cons [of "AList.update k v al"] by (simp add: e)
  also have "\<dots> = (map_of al)(k \<mapsto> v) ++ map_of (rev es)"
    by (simp add: update_conv')
  also have "\<dots> = map_of (rev (e # es) @ al)"
    by (simp add: e)
  finally show ?case .
qed

lemma fold_update_keys:
  "fst ` set (fold (\<lambda>(k, v). AList.update k v) es al) = fst ` set al \<union> fst ` set es"
proof (induction es arbitrary: al)
  case Nil
  show ?case by simp
next
  case (Cons e es)
  obtain k v where e: "e = (k, v)" by (cases e)
  have "fst ` set (AList.update k v al) = insert k (fst ` set al)"
    using dom_update [of k v al] by (simp add: dom_map_of_conv_image_fst)
  with Cons [of "AList.update k v al"] show ?case by (auto simp: e)
qed

lemma archive_shorter:
  assumes "distinct (map fst archive)" "set (map fst archive) = set (map fst es)"
    "\<not> distinct (map fst es)"
  shows "length archive < length es"
proof -
  have "length archive = card (set (map fst archive))"
    using assms(1) distinct_card [of "map fst archive"] by simp
  also have "\<dots> = card (set (map fst es))" using assms(2) by simp
  also have "\<dots> < length (map fst es)"
  proof -
    have "card (set (map fst es)) \<le> length (map fst es)" by (rule card_length)
    moreover have "card (set (map fst es)) \<noteq> length (map fst es)"
      using assms(3) card_distinct by blast
    ultimately show ?thesis by simp
  qed
  finally show ?thesis by simp
qed

text \<open>
  C9. The archive a finished export downloads has at most one entry of each name; as a
  map from names to data it is the list of the embedded items' entries read from the last to
  the first, so that of the items of one filename the last one embedded supplies the data;
  and when two embedded items share a filename, the archive has fewer entries than there
  are embedded items.
\<close>

theorem archive_keyed_by_name:
  assumes "processAndDownloadAll True decode embedExif generate s = (s', Download archive, logged)"
  shows "distinct (map fst archive)
    \<and> map_of archive
        = map_of (rev (embeddedEntries decode embedExif
            (filter (\<lambda>f. status f = SUCCESS \<and> metadata f \<noteq> None) (imageFiles s))))
    \<and> (\<not> distinct (map fst (embeddedEntries decode embedExif
            (filter (\<lambda>f. status f = SUCCESS \<and> metadata f \<noteq> None) (imageFiles s)))) \<longrightarrow>
        length archive
          < length (embeddedEntries decode embedExif
              (filter (\<lambda>f. status f = SUCCESS \<and> metadata f \<noteq> None) (imageFiles s))))"
proof -
  let ?files = "filter (\<lambda>f. status f = SUCCESS \<and> metadata f \<noteq> None) (imageFiles s)"
  let ?es = "embeddedEntries decode embedExif ?files"
  from assms have "exportLoop decode embedExif ?files ([], []) = Inr (archive, logged)"
    by (auto simp: processAndDownloadAll_def split: sum.splits if_splits)
  then have a: "archive = fold (\<lambda>(k, v). AList.update k v) ?es []"
    using exportLoop_entries [of decode embedExif ?files "([], [])" archive logged] by simp
  have d: "distinct (map fst archive)" unfolding a by (rule fold_update_distinct) simp
  have m: "map_of archive = map_of (rev ?es)" unfolding a by (simp add: fold_update_map_of)
  have k: "set (map fst archive) = set (map fst ?es)" unfolding a by (simp add: fold_update_keys)
  show ?thesis using d m archive_shorter [OF d k] by blast
qed

theorem archive_keyed_by_name_witness:
  "processAndDownloadAll True (\<lambda>f. Inr (previewUrl f)) (\<lambda>z u. Some u) (\<lambda>a. True)
     \<lparr>imageFiles =
        [\<lparr>id' = js ''1'', file' = \<lparr>name = js ''a.png'', type' = js ''image/png''\<rparr>,
           previewUrl = js ''blob:1'',
           metadata = Some \<lparr>filename = js ''elf'', title = js ''Elf'', description = js ''An elf'',
                             tags = [js ''elf'']\<rparr>,
           status = SUCCESS, error = None\<rparr>,
         \<lparr>id' = js ''2'', file' = \<lparr>name = js ''b.png'', type' = js ''image/png''\<rparr>,
           previewUrl = js ''blob:2'',
           metadata = Some \<lparr>filename = js ''elf'', title = js ''Elf too'',
                             description = js ''Another elf'', tags = [js ''elf'']\<rparr>,
           status = SUCCESS, error = None\<rparr>],
      isProcessing = False, isZipping = False, customTagsInput = []\<rparr>
   = (\<lparr>imageFiles =
        [\<lparr>id' = js ''1'', file' = \<lparr>name = js ''a.png'', type' = js ''image/png''\<rparr>,
           previewUrl = js ''blob:1'',
           metadata = Some \<lparr>filename = js ''elf'', title = js ''Elf'', description = js ''An elf'',
                             tags = [js ''elf'']\<rparr>,
           status = SUCCESS, error = None\<rparr>,
         \<lparr>id' = js ''2'', file' = \<lparr>name = js ''b.png'', type' = js ''image/png''\<rparr>,
           previewUrl = js ''blob:2'',
           metadata = Some \<lparr>filename = js ''elf'', title = js ''Elf too'',
                             description = js ''Another elf'', tags = [js ''elf'']\<rparr>,
           status = SUCCESS, error = None\<rparr>],
      isProcessing = False, isZipping = False, customTagsInput = []\<rparr>,
      Download [(js ''elf'' @ js ''.jpg'', js ''blob:2'')], [])
   \<and> length [(js ''elf'' @ js ''.jpg'', js ''blob:2'')]
       < length (embeddedEntries (\<lambda>f. Inr (previewUrl f)) (\<lambda>z u. Some u)
          [\<lparr>id' = js ''1'', file' = \<lparr>name = js ''a.png'', type' = js ''image/png''\<rparr>,
           previewUrl = js ''blob:1'',
           metadata = Some \<lparr>filename = js ''elf'', title = js ''Elf'', description = js ''An elf'',
                             tags = [js ''elf'']\<rparr>,
           status = SUCCESS, error = None\<rparr>,
         \<lparr>id' = js ''2'', file' = \<lparr>name = js ''b.png'', type' = js ''image/png''\<rparr>,
           previewUrl = js ''blob:2'',
           metadata = Some \<lparr>filename = js ''elf'', title = js ''Elf too'',
                             description = js ''Another elf'', tags = [js ''elf'']\<rparr>,
           status = SUCCESS, error = None\<rparr>])"
proof -
  let ?files = "[\<lparr>id' = js ''1'', file' = \<lparr>name = js ''a.png'', type' = js ''image/png''\<rparr>,
           previewUrl = js ''blob:1'',
           metadata = Some \<lparr>filename = js ''elf'', title = js ''Elf'', description = js ''An elf'',
                             tags = [js ''elf'']\<rparr>,
           status = SUCCESS, error = None\<rparr>,
         \<lparr>id' = js ''2'', file' = \<lparr>name = js ''b.png'', type' = js ''image/png''\<rparr>,
           previewUrl = js ''blob:2'',
           metadata = Some \<lparr>filename = js ''elf'', title = js ''Elf too'',
                             description = js ''Another elf'', tags = [js ''elf'']\<rparr>,
           status = SUCCESS, error = None\<rparr>]"
  let ?s = "\<lparr>imageFiles = ?files, isProcessing = False, isZipping = False, customTagsInput = []\<rparr>"
  let ?decode = "\<lambda>f :: ImageFile. Inr (previewUrl f) :: jsstring + jsstring"
  let ?embed = "\<lambda>(z :: Zeroth) (u :: jsstring). Some u"
  have e: "processAndDownloadAll True ?decode ?embed (\<lambda>a. True) ?s
      = (?s, Download [(js ''elf'' @ js ''.jpg'', js ''blob:2'')], [])"
    by (simp add: processAndDownloadAll_def)
  have f: "filter (\<lambda>f. status f = SUCCESS \<and> metadata f \<noteq> None) (imageFiles ?s) = ?files"
    by simp
  have n: "\<not> distinct (map fst (embeddedEntries ?decode ?embed ?files))"
    by (simp add: embeddedEntries_def)
  from archive_keyed_by_name [OF e] n
  have "length [(js ''elf'' @ js ''.jpg'', js ''blob:2'')]
      < length (embeddedEntries ?decode ?embed ?files)"
    unfolding f by blast
  with e show ?thesis by blast
qed

text \<open>
  C2, on the code: a failure of the decode step of one item is not caught. With two items
  in success status and the first one failing to decode, the handler ends in the unhandled
  rejection, with \<open>isZipping\<close> left set and no archive, and the second item is never
  processed. A failure of the embedding step of the same item is caught and logged, and the
  export goes on to the second item.
\<close>

theorem decode_failure_aborts_export:
  "processAndDownloadAll True
     (\<lambda>f. if id' f = js ''1'' then Inl (js ''Could not load image for conversion.'')
          else Inr (previewUrl f))
     (\<lambda>z u. Some u) (\<lambda>a. True)
     \<lparr>imageFiles =
        [\<lparr>id' = js ''1'', file' = \<lparr>name = js ''elf.heic'', type' = js ''image/heic''\<rparr>,
           previewUrl = js ''blob:1'',
           metadata = Some \<lparr>filename = js ''elf'', title = js ''Elf'', description = js ''An elf'',
                             tags = [js ''elf'']\<rparr>,
           status = SUCCESS, error = None\<rparr>,
         \<lparr>id' = js ''2'', file' = \<lparr>name = js ''orc.png'', type' = js ''image/png''\<rparr>,
           previewUrl = js ''blob:2'',
           metadata = Some \<lparr>filename = js ''orc'', title = js ''Orc'', description = js ''An orc'',
                             tags = [js ''orc'']\<rparr>,
           status = SUCCESS, error = None\<rparr>],
      isProcessing = False, isZipping = False, customTagsInput = []\<rparr>
   = (\<lparr>imageFiles =
        [\<lparr>id' = js ''1'', file' = \<lparr>name = js ''elf.heic'', type' = js ''image/heic''\<rparr>,
           previewUrl = js ''blob:1'',
           metadata = Some \<lparr>filename = js ''elf'', title = js ''Elf'', description = js ''An elf'',
                             tags = [js ''elf'']\<rparr>,
           status = SUCCESS, error = None\<rparr>,
         \<lparr>id' = js ''2'', file' = \<lparr>name = js ''orc.png'', type' = js ''image/png''\<rparr>,
           previewUrl = js ''blob:2'',
           metadata = Some \<lparr>filename = js ''orc'', title = js ''Orc'', description = js ''An orc'',
                             tags = [js ''orc'']\<rparr>,
           status = SUCCESS, error = None\<rparr>],
      isProcessing = False, isZipping = True, customTagsInput = []\<rparr>,
      Unhandled (js ''Could not load image for conversion.''), [])
   \<and> processAndDownloadAll True (\<lambda>f. Inr (previewUrl f))
     (\<lambda>z u. if u = js ''blob:1'' then None else Some u) (\<lambda>a. True)
     \<lparr>imageFiles =
        [\<lparr>id' = js ''1'', file' = \<lparr>name = js ''elf.heic'', type' = js ''image/heic''\<rparr>,
           previewUrl = js ''blob:1'',
           metadata = Some \<lparr>filename = js ''elf'', title = js ''Elf'', description = js ''An elf'',
                             tags = [js ''elf'']\<rparr>,
           status = SUCCESS, error = None\<rparr>,
         \<lparr>id' = js ''2'', file' = \<lparr>name = js ''orc.png'', type' = js ''image/png''\<rparr>,
           previewUrl = js ''blob:2'',
           metadata = Some \<lparr>filename = js ''orc'', title = js ''Orc'', description = js ''An orc'',
                             tags = [js ''orc'']\<rparr>,
           status = SUCCESS, error = None\<rparr>],
      isProcessing = False, isZipping = False, customTagsInput = []\<rparr>
   = (\<lparr>imageFiles =
        [\<lparr>id' = js ''1'', file' = \<lparr>name = js ''elf.heic'', type' = js ''image/heic''\<rparr>,
           previewUrl = js ''blob:1'',
           metadata = Some \<lparr>filename = js ''elf'', title = js ''Elf'', description = js ''An elf'',
                             tags = [js ''elf'']\<rparr>,
           status = SUCCESS, error = None\<rparr>,
         \<lparr>id' = js ''2'', file' = \<lparr>name = js ''orc.png'', type' = js ''image/png''\<rparr>,
           previewUrl = js ''blob:2'',
           metadata = Some \<lparr>filename = js ''orc'', title = js ''Orc'', description = js ''An orc'',
                             tags = [js ''orc'']\<rparr>,
           status = SUCCESS, error = None\<rparr>],
      isProcessing = False, isZipping = False, customTagsInput = []\<rparr>,
      Download [(js ''orc'' @ js ''.jpg'', js ''blob:2'')], [js ''elf.heic''])"
proof -
  have b: "js ''blob:2'' \<noteq> js ''blob:1''" by (simp add: js_def)
  show ?thesis by (simp add: processAndDownloadAll_def b)
qed

section \<open>Properties of Generate All\<close>

lemma find_own:
  "distinct (map id' xs) \<Longrightarrow> x \<in> set xs \<Longrightarrow> find (\<lambda>f. id' f = id' x) xs = Some x"
proof (induction xs)
  case Nil
  then show ?case by simp
next
  case (Cons a xs)
  show ?case
  proof (cases "id' a = id' x")
    case True
    have "x = a"
    proof (rule ccontr)
      assume "x \<noteq> a"
      with Cons.prems(2) have "x \<in> set xs" by simp
      then have "id' x \<in> id' ` set xs" by (rule imageI)
      with True Cons.prems(1) show False by simp
    qed
    then show ?thesis by simp
  next
    case False
    with Cons.prems(2) have "x \<in> set xs" by auto
    moreover from Cons.prems(1) have "distinct (map id' xs)" by simp
    ultimately have "find (\<lambda>f. id' f = id' x) xs = Some x" by (rule Cons.IH [rotated])
    with False show ?thesis by simp
  qed
qed

lemma analysis_step:
  assumes "find (\<lambda>f. id' f = i) snapshot = Some x"
  shows "handleGenerateMetadataForOne analyze snapshot i (cur, calls)
    = (map (\<lambda>g. if id' g = i
                 then (case analyze (file' x) of
                         Inr m \<Rightarrow> g\<lparr>metadata := Some m, status := SUCCESS, error := None\<rparr>
                       | Inl e \<Rightarrow> g\<lparr>status := ERROR, error := Some e\<rparr>)
                 else g) cur,
       calls @ [Requested i, Returned i])"
  using assms
  by (simp add: handleGenerateMetadataForOne_def beginAnalysis_def finishAnalysis_def
      updateImageFile_def spread_def split: sum.splits)

lemma map_other_ids:
  "id' x \<notin> id' ` set xs \<Longrightarrow> map (\<lambda>g. if id' g = id' x then h g else g) xs = xs"
  by (induction xs) auto

lemma generateAllLoop_snoc:
  "generateAllLoop analyze snapshot (todo @ [x]) st =
     (if status x = IDLE \<or> status x = ERROR
      then handleGenerateMetadataForOne analyze snapshot (id' x)
             (generateAllLoop analyze snapshot todo st)
      else generateAllLoop analyze snapshot todo st)"
  by (simp add: generateAllLoop_def)

lemma generateAllLoop_prefix:
  fixes analyze :: "File \<Rightarrow> jsstring + ImageMetadata"
  defines "F \<equiv> \<lambda>f. if status f = IDLE \<or> status f = ERROR
              then (case analyze (file' f) of
                      Inr m \<Rightarrow> f\<lparr>metadata := Some m, status := SUCCESS, error := None\<rparr>
                    | Inl e \<Rightarrow> f\<lparr>status := ERROR, error := Some e\<rparr>)
              else f"
  assumes "distinct (map id' (pre @ post))"
  shows "generateAllLoop analyze (pre @ post) pre (pre @ post, [])
    = (map F pre @ post,
       concat (map (\<lambda>f. [Requested (id' f), Returned (id' f)])
         (filter (\<lambda>f. status f = IDLE \<or> status f = ERROR) pre)))"
  using assms(2)
proof (induction pre arbitrary: post rule: rev_induct)
  case Nil
  show ?case by (simp add: generateAllLoop_def)
next
  case (snoc x pre)
  have Fid: "id' (F g) = id' g" for g
    by (simp add: F_def split: sum.splits)
  from snoc.prems have d: "distinct (map id' (pre @ (x # post)))" by simp
  have ih: "generateAllLoop analyze (pre @ x # post) pre (pre @ x # post, [])
    = (map F pre @ x # post,
       concat (map (\<lambda>f. [Requested (id' f), Returned (id' f)])
         (filter (\<lambda>f. status f = IDLE \<or> status f = ERROR) pre)))"
    using snoc.IH [OF d] .
  show ?case
  proof (cases "status x = IDLE \<or> status x = ERROR")
    case False
    then show ?thesis
      using ih by (simp add: generateAllLoop_snoc F_def)
  next
    case True
    have f: "find (\<lambda>f. id' f = id' x) (pre @ x # post) = Some x"
      using d by (intro find_own) simp_all
    from d have n1: "id' x \<notin> id' ` set (map F pre)" and n2: "id' x \<notin> id' ` set post"
      by (auto simp: Fid image_iff)
    let ?U = "\<lambda>g. case analyze (file' x) of
                     Inr m \<Rightarrow> g\<lparr>metadata := Some m, status := SUCCESS, error := None\<rparr>
                   | Inl e \<Rightarrow> g\<lparr>status := ERROR, error := Some e\<rparr>"
    let ?G = "\<lambda>g. if id' g = id' x then ?U g else g"
    have u: "?U x = F x" using True by (simp add: F_def)
    have "map ?G (map F pre @ x # post) = map ?G (map F pre) @ ?G x # map ?G post"
      by (simp only: map_append list.map)
    also have "\<dots> = map F pre @ F x # post"
      unfolding map_other_ids [OF n1, of ?U] map_other_ids [OF n2, of ?U] using u by simp
    finally have m: "map ?G (map F pre @ x # post) = map F pre @ F x # post" .
    have "handleGenerateMetadataForOne analyze (pre @ x # post) (id' x)
        (map F pre @ x # post,
         concat (map (\<lambda>f. [Requested (id' f), Returned (id' f)])
           (filter (\<lambda>f. status f = IDLE \<or> status f = ERROR) pre)))
      = (map F pre @ F x # post,
         concat (map (\<lambda>f. [Requested (id' f), Returned (id' f)])
           (filter (\<lambda>f. status f = IDLE \<or> status f = ERROR) pre))
         @ [Requested (id' x), Returned (id' x)])"
      unfolding analysis_step [OF f] m ..
    with True ih show ?thesis
      by (simp add: generateAllLoop_snoc)
  qed
qed

text \<open>
  C5. With the item ids distinct (they come from \<open>crypto.randomUUID\<close>), Generate All
  makes one request for each item that is idle or in error when it is called, and for no
  other item, in the order of the collection, each request ending before the next begins.
  Afterwards each of these items carries the outcome of its request, and every other item,
  so every item in success status, is what it was, at its place.
\<close>

theorem generate_all:
  assumes "distinct (map id' (imageFiles s))"
  shows "snd (handleGenerateAllMetadata analyze s)
      = concat (map (\<lambda>f. [Requested (id' f), Returned (id' f)])
          (filter (\<lambda>f. status f = IDLE \<or> status f = ERROR) (imageFiles s)))
    \<and> imageFiles (fst (handleGenerateAllMetadata analyze s))
      = map (\<lambda>f. if status f = IDLE \<or> status f = ERROR
                 then (case analyze (file' f) of
                         Inr m \<Rightarrow> f\<lparr>metadata := Some m, status := SUCCESS, error := None\<rparr>
                       | Inl e \<Rightarrow> f\<lparr>status := ERROR, error := Some e\<rparr>)
                 else f) (imageFiles s)
    \<and> (\<forall>i < length (imageFiles s). status (imageFiles s ! i) = SUCCESS \<longrightarrow>
          imageFiles (fst (handleGenerateAllMetadata analyze s)) ! i = imageFiles s ! i)"
proof -
  from assms have "distinct (map id' (imageFiles s @ []))" by simp
  from generateAllLoop_prefix [OF this, of analyze]
  have "generateAllLoop analyze (imageFiles s) (imageFiles s) (imageFiles s, [])
    = (map (\<lambda>f. if status f = IDLE \<or> status f = ERROR
                 then (case analyze (file' f) of
                         Inr m \<Rightarrow> f\<lparr>metadata := Some m, status := SUCCESS, error := None\<rparr>
                       | Inl e \<Rightarrow> f\<lparr>status := ERROR, error := Some e\<rparr>)
                 else f) (imageFiles s),
       concat (map (\<lambda>f. [Requested (id' f), Returned (id' f)])
         (filter (\<lambda>f. status f = IDLE \<or> status f = ERROR) (imageFiles s))))"
    by simp
  then show ?thesis
    by (simp add: handleGenerateAllMetadata_def)
qed

theorem generate_all_witness:
  "snd (handleGenerateAllMetadata
     (\<lambda>f. if name f = js ''elf.png''
          then Inr \<lparr>filename = js ''elf'', title = js ''Elf'', description = js ''An elf'',
                    tags = [js ''elf'']\<rparr>
          else Inl (js ''Could not analyze the image.''))
     \<lparr>imageFiles =
        [\<lparr>id' = js ''1'', file' = \<lparr>name = js ''elf.png'', type' = js ''image/png''\<rparr>,
           previewUrl = js ''blob:1'', metadata = None, status = IDLE, error = None\<rparr>,
         \<lparr>id' = js ''2'', file' = \<lparr>name = js ''orc.png'', type' = js ''image/png''\<rparr>,
           previewUrl = js ''blob:2'',
           metadata = Some \<lparr>filename = js ''orc'', title = js ''Orc'', description = js ''An orc'',
                             tags = [js ''orc'']\<rparr>,
           status = SUCCESS, error = None\<rparr>,
         \<lparr>id' = js ''3'', file' = \<lparr>name = js ''imp.png'', type' = js ''image/png''\<rparr>,
           previewUrl = js ''blob:3'', metadata = None, status = ERROR,
           error = Some (js ''Could not analyze the image.'')\<rparr>],
      isProcessing = False, isZipping = False, customTagsInput = []\<rparr>)
   = [Requested (js ''1''), Returned (js ''1''), Requested (js ''3''), Returned (js ''3'')]"
proof -
  let ?s = "\<lparr>imageFiles =
        [\<lparr>id' = js ''1'', file' = \<lparr>name = js ''elf.png'', type' = js ''image/png''\<rparr>,
           previewUrl = js ''blob:1'', metadata = None, status = IDLE, error = None\<rparr>,
         \<lparr>id' = js ''2'', file' = \<lparr>name = js ''orc.png'', type' = js ''image/png''\<rparr>,
           previewUrl = js ''blob:2'',
           metadata = Some \<lparr>filename = js ''orc'', title = js ''Orc'', description = js ''An orc'',
                             tags = [js ''orc'']\<rparr>,
           status = SUCCESS, error = None\<rparr>,
         \<lparr>id' = js ''3'', file' = \<lparr>name = js ''imp.png'', type' = js ''image/png''\<rparr>,
           previewUrl = js ''blob:3'', metadata = None, status = ERROR,
           error = Some (js ''Could not analyze the image.'')\<rparr>],
      isProcessing = False, isZipping = False, customTagsInput = []\<rparr>"
  have d: "distinct (map id' (imageFiles ?s))" by (simp add: js_def)
  show ?thesis
    using generate_all [OF d] by simp
qed

section \<open>The item invariant\<close>


subsection \<open>What every run keeps\<close>










subsection \<open>What the runs without a stale success keep\<close>
















end
